theory Spec2Isabelle
  imports Complex_Main
begin

section \<open>Python strings\<close>

text \<open>
  A Python \<open>str\<close> is a sequence of Unicode code points, and \<open>len\<close>, slicing and
  \<open>strip\<close> count code points. A string is therefore modelled as a list of code points
  (natural numbers); \<open>lit\<close> writes an ASCII literal.
\<close>

type_synonym pystr = "nat list"

definition lit :: "string \<Rightarrow> pystr" where
  "lit s = map (of_char :: char \<Rightarrow> nat) s"

text \<open>The code points for which \<open>str.isspace\<close> holds: what \<open>str.strip()\<close> removes.\<close>

definition isspace :: "nat \<Rightarrow> bool" where
  "isspace c \<longleftrightarrow>
     (9 \<le> c \<and> c \<le> 13) \<or> (28 \<le> c \<and> c \<le> 32) \<or> c = 133 \<or> c = 160 \<or> c = 5760 \<or>
     (8192 \<le> c \<and> c \<le> 8202) \<or> c = 8232 \<or> c = 8233 \<or> c = 8239 \<or> c = 8287 \<or> c = 12288"

definition lstrip :: "pystr \<Rightarrow> pystr" where
  "lstrip s = dropWhile isspace s"

definition rstrip :: "pystr \<Rightarrow> pystr" where
  "rstrip s = rev (dropWhile isspace (rev s))"

definition strip :: "pystr \<Rightarrow> pystr" where
  "strip s = rstrip (lstrip s)"

text \<open>\<open>s.strip(chars)\<close>: both ends are cleared of the code points of \<open>chars\<close>.\<close>

definition strip_chars :: "pystr \<Rightarrow> pystr \<Rightarrow> pystr" where
  "strip_chars chars s =
     rev (dropWhile (\<lambda>c. c \<in> set chars) (rev (dropWhile (\<lambda>c. c \<in> set chars) s)))"

definition startswith :: "pystr \<Rightarrow> pystr \<Rightarrow> bool" where
  "startswith s p \<longleftrightarrow> take (length p) s = p"

text \<open>The line boundaries of \<open>str.splitlines\<close>; a carriage return followed by a line
  feed is one boundary, and the text after the last boundary is a line only when it is
  not empty.\<close>

definition is_linebreak :: "nat \<Rightarrow> bool" where
  "is_linebreak c \<longleftrightarrow>
     (10 \<le> c \<and> c \<le> 13) \<or> (28 \<le> c \<and> c \<le> 30) \<or> c = 133 \<or> c = 8232 \<or> c = 8233"

fun splitlines_from :: "pystr \<Rightarrow> pystr \<Rightarrow> pystr list" where
  "splitlines_from cur [] = (if cur = [] then [] else [rev cur])"
| "splitlines_from cur (c # cs) =
     (if c = 13 then
        (case cs of
           [] \<Rightarrow> [rev cur]
         | d # ds \<Rightarrow> if d = 10 then rev cur # splitlines_from [] ds
                    else rev cur # splitlines_from [] (d # ds))
      else if is_linebreak c then rev cur # splitlines_from [] cs
      else splitlines_from (c # cur) cs)"

definition splitlines :: "pystr \<Rightarrow> pystr list" where
  "splitlines s = splitlines_from [] s"

fun join :: "pystr \<Rightarrow> pystr list \<Rightarrow> pystr" where
  "join sep [] = []"
| "join sep [x] = x"
| "join sep (x # y # ys) = x @ sep @ join sep (y # ys)"

text \<open>
  \<open>str.lower\<close>, exact on every code point whose lower-case form holds an ASCII letter
  (A to Z, U+0130 and the Kelvin sign U+212A). The other code points are left as they
  are: their lower-case form holds no ASCII letter, so a comparison of the result with
  an ASCII word, the only use the program makes of it, comes out the same.
\<close>

definition lower_cp :: "nat \<Rightarrow> pystr" where
  "lower_cp c =
     (if 65 \<le> c \<and> c \<le> 90 then [c + 32]
      else if c = 304 then [105, 775]
      else if c = 8490 then [107]
      else [c])"

definition lower :: "pystr \<Rightarrow> pystr" where
  "lower s = concat (map lower_cp s)"

text \<open>\<open>s.find(c)\<close> and \<open>s.rfind(c)\<close> for a one-character \<open>c\<close>; Python's \<open>-1\<close> is
  \<open>None\<close>.\<close>

fun str_find :: "pystr \<Rightarrow> nat \<Rightarrow> nat option" where
  "str_find [] c = None"
| "str_find (x # xs) c = (if x = c then Some 0 else map_option Suc (str_find xs c))"

definition str_rfind :: "pystr \<Rightarrow> nat \<Rightarrow> nat option" where
  "str_rfind s c = map_option (\<lambda>i. length s - 1 - i) (str_find (rev s) c)"

text \<open>\<open>s[l : r]\<close> for indices that are not negative.\<close>

definition slice :: "pystr \<Rightarrow> nat \<Rightarrow> nat \<Rightarrow> pystr" where
  "slice s l r = take (r - l) (drop l s)"

text \<open>\<open>s.replace(a, b)\<close> for one-character \<open>a\<close> and \<open>b\<close>.\<close>

definition replace :: "pystr \<Rightarrow> nat \<Rightarrow> nat \<Rightarrow> pystr" where
  "replace s a b = map (\<lambda>c. if c = a then b else c) s"

text \<open>The decimal form of an integer, as \<open>str\<close> and an f-string give it.\<close>

function str_nat :: "nat \<Rightarrow> pystr" where
  "str_nat n = (if n < 10 then [48 + n] else str_nat (n div 10) @ [48 + n mod 10])"
  by pat_completeness auto
termination
  by (relation "measure id") auto

declare str_nat.simps [simp del]

definition str_int :: "int \<Rightarrow> pystr" where
  "str_int i = (if i < 0 then 45 # str_nat (nat (- i)) else str_nat (nat i))"

section \<open>Extraction of the JSON text from a model response\<close>

text \<open>
  \<open>_safe_json_extract\<close>: the response is stripped, a code fence and its language tag
  are removed, and the text from the first \<open>[\<close> to the last \<open>]\<close> is returned (failing
  that, from the first \<open>{\<close> to the last \<open>}\<close>).
\<close>

definition unfence :: "pystr \<Rightarrow> pystr" where
  "unfence s0 =
     (if startswith s0 (lit ''```'') then
        (let s = strip (strip_chars (lit ''`'') s0);
             lines = splitlines s
         in if lines \<noteq> [] \<and> lower (strip (hd lines)) \<in> {lit ''json'', lit ''javascript''}
            then strip (join [10] (tl lines))
            else s)
      else s0)"

definition bracket_span :: "pystr \<Rightarrow> nat \<Rightarrow> nat \<Rightarrow> pystr option" where
  "bracket_span s opening closing =
     (case (str_find s opening, str_rfind s closing) of
        (Some l, Some r) \<Rightarrow> if r > l then Some (strip (slice s l (r + 1))) else None
      | _ \<Rightarrow> None)"

definition safe_json_extract :: "pystr \<Rightarrow> pystr option" where
  "safe_json_extract text =
     (if text = [] then None
      else
        (let s = unfence (strip text) in
         case bracket_span s 91 93 of
           Some j \<Rightarrow> Some j
         | None \<Rightarrow> bracket_span s 123 125))"

section \<open>Python values, exceptions and the library functions the program calls\<close>

text \<open>An exception that \<open>except Exception\<close> catches: the name of its type and its
  message.\<close>

datatype py_exception = PyException pystr pystr

definition describe :: "py_exception \<Rightarrow> pystr" where
  \<comment> \<open>\<open>f"{type(e).__name__}: {e}"\<close>\<close>
  "describe e = (case e of PyException name msg \<Rightarrow> name @ lit '': '' @ msg)"

text \<open>A Python \<open>float\<close>: a rational number (every finite float is one), an infinity
  or not-a-number.\<close>

datatype pyfloat = Finite rat | PosInf | NegInf | NaN

text \<open>The values \<open>json.loads\<close> builds. A \<open>dict\<close> is an association list; \<open>get\<close> reads
  the first binding of a key.\<close>

datatype pyval =
    PNone
  | PBool bool
  | PInt int
  | PFloat pyfloat
  | PStr pystr
  | PList "pyval list"
  | PDict "(pystr \<times> pyval) list"

text \<open>
  Python's own library is not part of the program. What the program calls of it and
  what is not modelled here in full is a parameter: \<open>json.loads\<close>; \<open>str\<close> of a float, a
  list or a dict; \<open>int\<close> of a string.
\<close>

record pylib =
  json_loads :: "pystr \<Rightarrow> py_exception + pyval"
  str_other :: "pyval \<Rightarrow> pystr"
  int_of_str :: "pystr \<Rightarrow> py_exception + int"

definition py_str :: "pylib \<Rightarrow> pyval \<Rightarrow> pystr" where
  "py_str lib v =
     (case v of
        PStr s \<Rightarrow> s
      | PNone \<Rightarrow> lit ''None''
      | PBool b \<Rightarrow> (if b then lit ''True'' else lit ''False'')
      | PInt i \<Rightarrow> str_int i
      | _ \<Rightarrow> str_other lib v)"

definition py_bool :: "pyval \<Rightarrow> bool" where
  "py_bool v =
     (case v of
        PNone \<Rightarrow> False
      | PBool b \<Rightarrow> b
      | PInt i \<Rightarrow> i \<noteq> 0
      | PFloat f \<Rightarrow> f \<noteq> Finite 0
      | PStr s \<Rightarrow> s \<noteq> []
      | PList xs \<Rightarrow> xs \<noteq> []
      | PDict kvs \<Rightarrow> kvs \<noteq> [])"

definition TypeError_int :: py_exception where
  "TypeError_int =
     PyException (lit ''TypeError'')
       (lit ''int() argument must be a string, a bytes-like object or a real number'')"

definition py_int :: "pylib \<Rightarrow> pyval \<Rightarrow> py_exception + int" where
  "py_int lib v =
     (case v of
        PNone \<Rightarrow> Inl TypeError_int
      | PBool b \<Rightarrow> Inr (if b then 1 else 0)
      | PInt i \<Rightarrow> Inr i
      | PFloat f \<Rightarrow>
          (case f of
             Finite q \<Rightarrow> Inr (if 0 \<le> q then \<lfloor>q\<rfloor> else \<lceil>q\<rceil>)
           | NaN \<Rightarrow>
               Inl (PyException (lit ''ValueError'') (lit ''cannot convert float NaN to integer''))
           | _ \<Rightarrow>
               Inl (PyException (lit ''OverflowError'')
                      (lit ''cannot convert float infinity to integer'')))
      | PStr s \<Rightarrow> int_of_str lib s
      | PList xs \<Rightarrow> Inl TypeError_int
      | PDict kvs \<Rightarrow> Inl TypeError_int)"

definition get :: "(pystr \<times> pyval) list \<Rightarrow> pystr \<Rightarrow> pyval \<Rightarrow> pyval" where
  \<comment> \<open>\<open>row.get(key, default)\<close>\<close>
  "get row key dflt = (case map_of row key of None \<Rightarrow> dflt | Some v \<Rightarrow> v)"

section \<open>Candidates, decisions and the judgment service\<close>

record candidate =
  item_id :: pystr
  item_title :: pystr
  item_source_name :: pystr
  item_group :: pystr
  item_section :: pystr
  item_url :: pystr

record decision =
  d_keep :: bool
  d_score :: int
  d_reason :: pystr
  d_brief :: pystr

type_synonym decisions = "pystr \<rightharpoonup> decision"

text \<open>
  One call of the judgment service: the mode and the chunk \<open>_judge_batch\<close> was given.
  The fetching of page text for the chunk, the prompt and \<open>client.chat\<close> are the
  outside world: a service answers a call with the raw text of the model or with an
  exception, and its answer may depend on the calls that came before.
\<close>

type_synonym call = "pystr \<times> candidate list"

type_synonym service = "call list \<Rightarrow> call \<Rightarrow> py_exception + pystr"

definition msg_no_json :: pystr where
  "msg_no_json =
     [27169, 22411, 36755, 20986, 26410, 25214, 21040, 21487, 35299, 26512, 30340] @ lit '' JSON''"

definition msg_not_array :: pystr where
  "msg_not_array = [27169, 22411, 36755, 20986] @ lit '' JSON '' @ [19981, 26159, 25968, 32452]"

definition normalize_brief :: "pystr \<Rightarrow> pystr" where
  "normalize_brief b =
     (let brief = strip b in
      if brief \<noteq> [] then
        (let brief = strip (replace (replace brief 10 32) 13 32) in
         if length brief > 80 then rstrip (take 80 brief) else brief)
      else brief)"

text \<open>The loop of \<open>_judge_batch\<close> over the rows of the parsed array.\<close>

fun rows_loop :: "pylib \<Rightarrow> pyval list \<Rightarrow> decisions \<Rightarrow> py_exception + decisions" where
  "rows_loop lib [] ds = Inr ds"
| "rows_loop lib (row # rows) ds =
     (case row of
        PDict kvs \<Rightarrow>
          (let rid = strip (py_str lib (get kvs (lit ''id'') (PStr []))) in
           if rid = [] then rows_loop lib rows ds
           else
             (let brief = normalize_brief (py_str lib (get kvs (lit ''brief'') (PStr [])));
                  keep = py_bool (get kvs (lit ''keep'') (PBool False));
                  score_v = get kvs (lit ''score'') (PInt 0)
              in case py_int lib (if py_bool score_v then score_v else PInt 0) of
                   Inl e \<Rightarrow> Inl e
                 | Inr score \<Rightarrow>
                     rows_loop lib rows
                       (ds(rid \<mapsto>
                          \<lparr>d_keep = keep, d_score = score,
                           d_reason = strip (py_str lib (get kvs (lit ''reason'') (PStr []))),
                           d_brief = brief\<rparr>))))
      | _ \<Rightarrow> rows_loop lib rows ds)"

definition parse_response :: "pylib \<Rightarrow> pystr \<Rightarrow> py_exception + decisions" where
  "parse_response lib raw =
     (case safe_json_extract raw of
        None \<Rightarrow> Inl (PyException (lit ''ValueError'') msg_no_json)
      | Some extracted \<Rightarrow>
          if extracted = [] then Inl (PyException (lit ''ValueError'') msg_no_json)
          else
            (case json_loads lib extracted of
               Inl e \<Rightarrow> Inl e
             | Inr data \<Rightarrow>
                 (case data of
                    PList rows \<Rightarrow> rows_loop lib rows Map.empty
                  | _ \<Rightarrow> Inl (PyException (lit ''ValueError'') msg_not_array))))"

text \<open>\<open>_judge_batch\<close>: one call of the service, recorded in the log of calls, and the
  parsing of its answer.\<close>

definition judge_batch ::
  "pylib \<Rightarrow> service \<Rightarrow> pystr \<Rightarrow> call list \<Rightarrow> candidate list \<Rightarrow>
     call list \<times> (py_exception + decisions)" where
  "judge_batch lib svc mode calls items =
     (calls @ [(mode, items)],
      case svc calls (mode, items) of
        Inl e \<Rightarrow> Inl e
      | Inr raw \<Rightarrow> parse_response lib raw)"

text \<open>
  The loop of \<open>_judge_in_batches\<close>, \<open>for start in range(0, len(items), batch_size)\<close>.
  \<open>range\<close> raises for a step of zero. \<open>decisions.update\<close> is \<open>++\<close>; the guard
  \<open>if chunk_decisions\<close> skips an update that would change nothing.
\<close>

function batches_loop ::
  "pylib \<Rightarrow> service \<Rightarrow> pystr \<Rightarrow> candidate list \<Rightarrow> nat \<Rightarrow> nat \<Rightarrow> call list \<Rightarrow> decisions \<Rightarrow>
     call list \<times> (py_exception + decisions)" where
  "batches_loop lib svc mode items step start calls ds =
     (if step = 0 then
        (calls, Inl (PyException (lit ''ValueError'') (lit ''range() arg 3 must not be zero'')))
      else if length items \<le> start then (calls, Inr ds)
      else
        (case judge_batch lib svc mode calls (take step (drop start items)) of
           (calls', Inl e) \<Rightarrow> (calls', Inl e)
         | (calls', Inr chunk_decisions) \<Rightarrow>
             batches_loop lib svc mode items step (start + step) calls'
               (ds ++ chunk_decisions)))"
  by pat_completeness auto
termination
  by (relation "measure (\<lambda>(lib, svc, mode, items, step, start, calls, ds). length items - start)")
    auto

declare batches_loop.simps [simp del]

text \<open>The fields of the gate object that the pipeline reads (\<open>API_KEY\<close> is
  \<open>self.ai_config.get("API_KEY")\<close>).\<close>

record quality_gate =
  enabled :: bool
  API_KEY :: "pystr option"
  min_score :: int
  max_items :: int
  batch_size :: int

definition judge_in_batches ::
  "pylib \<Rightarrow> service \<Rightarrow> quality_gate \<Rightarrow> pystr \<Rightarrow> call list \<Rightarrow> candidate list \<Rightarrow>
     call list \<times> (py_exception + decisions)" where
  "judge_in_batches lib svc self mode calls items =
     (if items = [] then (calls, Inr Map.empty)
      else
        batches_loop lib svc mode items
          (if batch_size self > 0 then nat (batch_size self) else length items) 0 calls Map.empty)"

section \<open>The collections and the candidate collector\<close>

text \<open>
  The four collections are lists of groups, a group holding a list of title entries.
  An entry, a group and the report are dictionaries: each key the pipeline reads or
  writes is a field (\<open>None\<close> when the key is absent or holds \<open>None\<close>), and the keys it
  never looks at are kept in \<open>extra\<close>.
\<close>

record entry =
  title :: "pystr option"
  source_name :: "pystr option"
  mobileUrl :: "pystr option"
  mobile_url :: "pystr option"
  url :: "pystr option"
  brief :: "pystr option"
  extra :: "(pystr \<times> pyval) list"

record group =
  word :: "pystr option"
  titles :: "entry list option"
  count :: "int option"
  group_extra :: "(pystr \<times> pyval) list"

record report_data =
  stats :: "group list option"
  new_titles :: "group list option"
  total_new_count :: "int option"
  report_extra :: "(pystr \<times> pyval) list"

definition or_empty :: "pystr option \<Rightarrow> pystr" where
  \<comment> \<open>\<open>v or ""\<close>\<close>
  "or_empty v = (case v of None \<Rightarrow> [] | Some s \<Rightarrow> s)"

definition or_nil :: "'a list option \<Rightarrow> 'a list" where
  \<comment> \<open>\<open>v or []\<close>\<close>
  "or_nil v = (case v of None \<Rightarrow> [] | Some xs \<Rightarrow> xs)"

definition link_url :: "entry \<Rightarrow> pystr" where
  \<comment> \<open>\<open>(t.get("mobileUrl") or t.get("mobile_url") or t.get("url") or "").strip()\<close>\<close>
  "link_url t =
     strip (if or_empty (mobileUrl t) \<noteq> [] then or_empty (mobileUrl t)
            else if or_empty (mobile_url t) \<noteq> [] then or_empty (mobile_url t)
            else or_empty (url t))"

definition mk_id :: "pystr \<Rightarrow> nat \<Rightarrow> nat \<Rightarrow> pystr" where
  \<comment> \<open>\<open>f"{section}:{gi}:{ti}"\<close>\<close>
  "mk_id section gi ti = section @ lit '':'' @ str_nat gi @ lit '':'' @ str_nat ti"

type_synonym pointers = "pystr \<rightharpoonup> pystr \<times> nat \<times> nat"

text \<open>The inner loop of the collector, \<open>for ti, t in enumerate(titles)\<close>, from index
  \<open>ti\<close> on.\<close>

fun titles_loop ::
  "pystr \<Rightarrow> pystr \<Rightarrow> nat \<Rightarrow> nat \<Rightarrow> entry list \<Rightarrow> candidate list \<times> pointers \<Rightarrow>
     candidate list \<times> pointers" where
  "titles_loop section grp gi ti [] acc = acc"
| "titles_loop section grp gi ti (t # ts) (items, ptrs) =
     (let tid = mk_id section gi ti;
          title = strip (or_empty (title t))
      in if title = [] then titles_loop section grp gi (Suc ti) ts (items, ptrs)
         else
           titles_loop section grp gi (Suc ti) ts
             (items @
                [\<lparr>item_id = tid, item_title = title,
                  item_source_name = strip (or_empty (source_name t)),
                  item_group = grp, item_section = section, item_url = link_url t\<rparr>],
              ptrs(tid \<mapsto> (section, gi, ti))))"

text \<open>The outer loop, \<open>for gi, g in enumerate(groups)\<close>, from index \<open>gi\<close> on. The
  section \<open>hot_new\<close> gives its candidates the empty group name; the others use the
  group's \<open>word\<close>.\<close>

fun groups_loop ::
  "pystr \<Rightarrow> bool \<Rightarrow> nat \<Rightarrow> group list \<Rightarrow> candidate list \<times> pointers \<Rightarrow>
     candidate list \<times> pointers" where
  "groups_loop section with_word gi [] acc = acc"
| "groups_loop section with_word gi (g # gs) acc =
     groups_loop section with_word (Suc gi) gs
       (titles_loop section (if with_word then strip (or_empty (word g)) else []) gi 0
          (or_nil (titles g)) acc)"

definition collect_candidates ::
  "report_data \<Rightarrow> group list option \<Rightarrow> group list option \<Rightarrow> candidate list \<times> pointers" where
  "collect_candidates report rss_items rss_new_items =
     (let acc = groups_loop (lit ''hot_stats'') True 0 (or_nil (stats report)) ([], Map.empty);
          acc = groups_loop (lit ''hot_new'') False 0 (or_nil (new_titles report)) acc;
          acc = groups_loop (lit ''rss_stats'') True 0 (or_nil rss_items) acc;
          acc = groups_loop (lit ''rss_new'') True 0 (or_nil rss_new_items) acc
      in acc)"

section \<open>The structure rewriter\<close>

definition annotate :: "decisions \<Rightarrow> pystr \<Rightarrow> entry \<Rightarrow> entry" where
  \<comment> \<open>\<open>d = decisions.get(tid) or {}\<close>; \<open>if d.get("brief"): t["brief"] = d["brief"]\<close>\<close>
  "annotate ds tid t =
     (case ds tid of
        None \<Rightarrow> t
      | Some d \<Rightarrow> if d_brief d \<noteq> [] then t\<lparr>brief := Some (d_brief d)\<rparr> else t)"

fun kept_titles_loop ::
  "pystr \<Rightarrow> nat \<Rightarrow> nat \<Rightarrow> entry list \<Rightarrow> pystr set \<Rightarrow> decisions \<Rightarrow> entry list \<Rightarrow> entry list" where
  "kept_titles_loop section gi ti [] keep_ids ds kept_titles = kept_titles"
| "kept_titles_loop section gi ti (t # ts) keep_ids ds kept_titles =
     (let tid = mk_id section gi ti
      in if tid \<in> keep_ids
         then kept_titles_loop section gi (Suc ti) ts keep_ids ds
                (kept_titles @ [annotate ds tid t])
         else kept_titles_loop section gi (Suc ti) ts keep_ids ds kept_titles)"

text \<open>The loop over the groups of one collection. Three of the four collections get
  \<open>g["count"] = len(kept_titles)\<close>; the loop over \<open>new_titles\<close> does not write it.\<close>

fun rewrite_groups_loop ::
  "pystr \<Rightarrow> bool \<Rightarrow> nat \<Rightarrow> group list \<Rightarrow> pystr set \<Rightarrow> decisions \<Rightarrow> group list \<Rightarrow> group list" where
  "rewrite_groups_loop section with_count gi [] keep_ids ds new_groups = new_groups"
| "rewrite_groups_loop section with_count gi (g # gs) keep_ids ds new_groups =
     (let kept_titles = kept_titles_loop section gi 0 (or_nil (titles g)) keep_ids ds []
      in rewrite_groups_loop section with_count (Suc gi) gs keep_ids ds
           (if kept_titles \<noteq> [] then
              new_groups @
                [if with_count
                 then g\<lparr>titles := Some kept_titles, count := Some (int (length kept_titles))\<rparr>
                 else g\<lparr>titles := Some kept_titles\<rparr>]
            else new_groups))"

definition rewrite_optional ::
  "pystr \<Rightarrow> group list option \<Rightarrow> pystr set \<Rightarrow> decisions \<Rightarrow> group list option" where
  \<comment> \<open>\<open>rss_items = copy.deepcopy(rss_items) if rss_items else None\<close>, then the loop when
     it is not \<open>None\<close>\<close>
  "rewrite_optional section groups keep_ids ds =
     (if or_nil groups = [] then None
      else Some (rewrite_groups_loop section True 0 (or_nil groups) keep_ids ds []))"

definition apply_kept_ids ::
  "report_data \<Rightarrow> group list option \<Rightarrow> group list option \<Rightarrow> pystr set \<Rightarrow> pointers \<Rightarrow> decisions \<Rightarrow>
     report_data \<times> group list option \<times> group list option" where
  "apply_kept_ids report rss_items rss_new_items keep_ids ptrs ds =
     (let new_stats =
            rewrite_groups_loop (lit ''hot_stats'') True 0 (or_nil (stats report)) keep_ids ds [];
          new_sources =
            rewrite_groups_loop (lit ''hot_new'') False 0 (or_nil (new_titles report)) keep_ids ds []
      in (report\<lparr>stats := Some new_stats, new_titles := Some new_sources,
                 total_new_count :=
                   Some (sum_list (map (\<lambda>s. int (length (or_nil (titles s)))) new_sources))\<rparr>,
          rewrite_optional (lit ''rss_stats'') rss_items keep_ids ds,
          rewrite_optional (lit ''rss_new'') rss_new_items keep_ids ds))"

section \<open>The pipeline\<close>

record QualityGateStats =
  total_items :: int
  evaluated_items :: int
  kept_items :: int
  dropped_items :: int
  error :: pystr

definition msg_no_api_key :: pystr where
  "msg_no_api_key =
     [26410, 37197, 32622] @ lit '' AI_API_KEY'' @ [65292, 36339, 36807, 36136, 37327, 22797, 31579]"

text \<open>The merger loop of \<open>filter_before_send\<close>, \<open>for it in items\<close>. A decision built
  by \<open>_judge_batch\<close> always holds a boolean \<open>keep\<close> and an integer \<open>score\<close>, so
  \<open>bool(d.get("keep", False))\<close> and \<open>int(d.get("score", 0) or 0)\<close> are the two fields.\<close>

fun keep_loop :: "quality_gate \<Rightarrow> decisions \<Rightarrow> candidate list \<Rightarrow> pystr set \<Rightarrow> pystr set" where
  "keep_loop self ds [] keep_ids = keep_ids"
| "keep_loop self ds (it # its) keep_ids =
     (let it_id = item_id it
      in case ds it_id of
           None \<Rightarrow> keep_loop self ds its (insert it_id keep_ids)
         | Some d \<Rightarrow>
             if d_keep d \<and> d_score d \<ge> min_score self
             then keep_loop self ds its (insert it_id keep_ids)
             else keep_loop self ds its keep_ids)"

definition eval_items :: "quality_gate \<Rightarrow> candidate list \<Rightarrow> candidate list" where
  \<comment> \<open>\<open>items[: self.max_items] if self.max_items > 0 else items\<close>\<close>
  "eval_items self items =
     (if max_items self > 0 then take (nat (max_items self)) items else items)"

definition filter_before_send ::
  "pylib \<Rightarrow> service \<Rightarrow> quality_gate \<Rightarrow> report_data \<Rightarrow> pystr \<Rightarrow> group list option \<Rightarrow>
     group list option \<Rightarrow>
     report_data \<times> group list option \<times> group list option \<times> QualityGateStats" where
  "filter_before_send lib svc self report mode rss_items rss_new_items =
     (let stats0 = \<lparr>total_items = 0, evaluated_items = 0, kept_items = 0, dropped_items = 0,
                     error = []\<rparr>
      in if \<not> enabled self then (report, rss_items, rss_new_items, stats0)
         else if strip (or_empty (API_KEY self)) = []
         then (report, rss_items, rss_new_items, stats0\<lparr>error := msg_no_api_key\<rparr>)
         else
           (let (items, ptrs) = collect_candidates report rss_items rss_new_items;
                stats1 = stats0\<lparr>total_items := int (length items)\<rparr>
            in if items = [] then (report, rss_items, rss_new_items, stats1)
               else
                 (let evals = eval_items self items;
                      stats2 = stats1\<lparr>evaluated_items := int (length evals)\<rparr>
                  in case snd (judge_in_batches lib svc self mode [] evals) of
                       Inl e \<Rightarrow>
                         (report, rss_items, rss_new_items, stats2\<lparr>error := describe e\<rparr>)
                     | Inr ds \<Rightarrow>
                         (let keep_ids = keep_loop self ds items {};
                              (filtered_report, filtered_rss, filtered_rss_new) =
                                apply_kept_ids report rss_items rss_new_items keep_ids ptrs ds;
                              kept = int (card keep_ids)
                          in (filtered_report, filtered_rss, filtered_rss_new,
                              stats2\<lparr>kept_items := kept,
                                     dropped_items := max 0 (total_items stats2 - kept)\<rparr>)))))"

section \<open>Notions used to state the properties\<close>

definition brief_ok :: "pystr \<Rightarrow> bool" where
  "brief_ok b \<longleftrightarrow> 10 \<notin> set b \<and> 13 \<notin> set b \<and> length b \<le> 80"

text \<open>The merger's verdict on an id, as the specification words it: an id without a
  decision is kept, an id with one is kept when \<open>keep\<close> holds and the score reaches
  \<open>min_score\<close>.\<close>

definition keeps :: "quality_gate \<Rightarrow> decisions \<Rightarrow> pystr \<Rightarrow> bool" where
  "keeps self ds i =
     (case ds i of None \<Rightarrow> True | Some d \<Rightarrow> d_keep d \<and> min_score self \<le> d_score d)"



text \<open>
  Batching as the specification words it: the list cut into contiguous chunks of at
  most \<open>B\<close> items, and the answer of each chunk when the chunks are judged one after the
  other, each call seeing the calls before it.
\<close>

function chunks_of :: "nat \<Rightarrow> 'a list \<Rightarrow> 'a list list" where
  "chunks_of B xs = (if B = 0 \<or> xs = [] then [] else take B xs # chunks_of B (drop B xs))"
  by pat_completeness auto
termination
  by (relation "measure (\<lambda>(B, xs). length xs)") auto

declare chunks_of.simps [simp del]

fun chunk_answers ::
  "pylib \<Rightarrow> service \<Rightarrow> pystr \<Rightarrow> call list \<Rightarrow> candidate list list \<Rightarrow>
     (py_exception + decisions) list" where
  "chunk_answers lib svc mode calls [] = []"
| "chunk_answers lib svc mode calls (c # cs) =
     snd (judge_batch lib svc mode calls c) # chunk_answers lib svc mode (calls @ [(mode, c)]) cs"













section \<open>Example inputs\<close>

definition example_entry :: "string \<Rightarrow> entry" where
  "example_entry t =
     \<lparr>title = Some (lit t), source_name = None, mobileUrl = None, mobile_url = None,
      url = None, brief = None, extra = []\<rparr>"

definition example_group :: "string \<Rightarrow> entry list \<Rightarrow> group" where
  "example_group w ts =
     \<lparr>word = Some (lit w), titles = Some ts, count = Some (int (length ts)), group_extra = []\<rparr>"

definition example_candidate :: "string \<Rightarrow> candidate" where
  "example_candidate i =
     \<lparr>item_id = lit i, item_title = lit ''t'', item_source_name = [], item_group = [],
      item_section = lit ''hot_stats'', item_url = []\<rparr>"

definition example_decision :: "bool \<Rightarrow> int \<Rightarrow> decision" where
  "example_decision k s = \<lparr>d_keep = k, d_score = s, d_reason = [], d_brief = []\<rparr>"

definition example_gate :: quality_gate where
  "example_gate =
     \<lparr>enabled = True, API_KEY = Some (lit ''key''), min_score = 60, max_items = 30,
      batch_size = 40\<rparr>"

text \<open>
  A library whose \<open>json.loads\<close> reads the text \<open>[rows]\<close> as the array of the given rows
  (and \<open>[]\<close> as the empty array), and a service that answers every call with that text inside a code fence.
\<close>

definition example_row :: "string \<Rightarrow> bool \<Rightarrow> int \<Rightarrow> pystr \<Rightarrow> pyval" where
  "example_row i k s b =
     PDict [(lit ''id'', PStr (lit i)), (lit ''keep'', PBool k), (lit ''score'', PInt s),
            (lit ''brief'', PStr b)]"

definition example_lib :: "pyval list \<Rightarrow> pylib" where
  "example_lib rows =
     \<lparr>json_loads = (\<lambda>s. if s = lit ''[rows]'' then Inr (PList rows)
                         else if s = lit ''[]'' then Inr (PList [])
                         else Inl (PyException (lit ''JSONDecodeError'') [])),
      str_other = (\<lambda>v. []),
      int_of_str = (\<lambda>s. Inl (PyException (lit ''ValueError'') []))\<rparr>"

definition example_service :: service where
  "example_service calls call =
     Inr (lit ''```json'' @ [10] @ lit ''[rows]'' @ [10] @ lit ''```'')"

text \<open>A brief of 95 code points with a line feed in it.\<close>

definition long_brief :: pystr where
  "long_brief = replicate 47 97 @ [10] @ replicate 47 98"

text \<open>Two groups of hot-list entries, and a report whose only section is \<open>new_titles\<close>,
  its group carrying a \<open>count\<close> field.\<close>

definition example_report :: report_data where
  "example_report =
     \<lparr>stats = Some [example_group ''AI'' [example_entry ''A'', example_entry ''B''],
                    example_group ''XR'' [example_entry ''C'']],
      new_titles = None, total_new_count = None, report_extra = []\<rparr>"



text \<open>The three candidates of \<open>example_report\<close>, and a service whose first call answers
  with the rows and whose later calls answer with the empty array.\<close>

definition example_item :: "string \<Rightarrow> string \<Rightarrow> string \<Rightarrow> candidate" where
  "example_item i t g =
     \<lparr>item_id = lit i, item_title = lit t, item_source_name = [], item_group = lit g,
      item_section = lit ''hot_stats'', item_url = []\<rparr>"

definition quiet_second_service :: service where
  "quiet_second_service calls call = (if calls = [] then Inr (lit ''[rows]'') else Inr (lit ''[]''))"




section \<open>The rewriter on a store of objects\<close>

text \<open>
  Whether the caller's data is mutated depends on which objects the writes of
  \<open>_apply_kept_ids\<close> reach, so here the dictionaries are objects in a store and the
  collections hold their addresses. The store has the entry, the group and the report
  dictionaries (an address is an index; allocation appends). Lists are values: the
  program never changes a list in place, it builds new lists and assigns them.

  \<open>copy.deepcopy\<close> copies every dictionary it reaches once, keeping a memo from the
  address of an original to the address of its copy, so that an object reached twice
  is copied once. The three calls (for \<open>report_data\<close>, \<open>rss_items\<close> and \<open>rss_new_items\<close>)
  each start with an empty memo. (\<open>report_data or {}\<close> copies an empty dictionary as it
  would copy any other.) The loops then write through the addresses of the copies:
  \<open>t["brief"] = ...\<close>, \<open>g["titles"] = ...\<close>, \<open>g["count"] = ...\<close> and the three assignments
  to the report. The collector, the judge and the merger only read; they run on the
  values read from the store.
\<close>

type_synonym addr = nat

record group_obj =
  go_word :: "pystr option"
  go_titles :: "addr list option"
  go_count :: "int option"
  go_extra :: "(pystr \<times> pyval) list"

record report_obj =
  ro_stats :: "addr list option"
  ro_new_titles :: "addr list option"
  ro_total_new_count :: "int option"
  ro_extra :: "(pystr \<times> pyval) list"

record store =
  entry_objs :: "entry list"
  group_objs :: "group_obj list"
  report_objs :: "report_obj list"

text \<open>The value of a group and of a report, read through the addresses.\<close>

definition read_group :: "store \<Rightarrow> addr \<Rightarrow> group" where
  "read_group h g =
     (let obj = group_objs h ! g
      in \<lparr>word = go_word obj, titles = map_option (map (\<lambda>t. entry_objs h ! t)) (go_titles obj),
          count = go_count obj, group_extra = go_extra obj\<rparr>)"

definition read_groups :: "store \<Rightarrow> addr list option \<Rightarrow> group list option" where
  "read_groups h gs = map_option (map (read_group h)) gs"

definition read_report :: "store \<Rightarrow> addr \<Rightarrow> report_data" where
  "read_report h r =
     (let obj = report_objs h ! r
      in \<lparr>stats = read_groups h (ro_stats obj), new_titles = read_groups h (ro_new_titles obj),
          total_new_count = ro_total_new_count obj, report_extra = ro_extra obj\<rparr>)"

text \<open>The memo of one \<open>deepcopy\<close> call, for groups and for entries.\<close>

type_synonym memo = "(addr \<rightharpoonup> addr) \<times> (addr \<rightharpoonup> addr)"

fun deepcopy_entries :: "addr list \<Rightarrow> store \<Rightarrow> memo \<Rightarrow> addr list \<times> store \<times> memo" where
  "deepcopy_entries [] h m = ([], h, m)"
| "deepcopy_entries (t # ts) h (mg, me) =
     (case me t of
        Some t' \<Rightarrow>
          (case deepcopy_entries ts h (mg, me) of (ts', h', m') \<Rightarrow> (t' # ts', h', m'))
      | None \<Rightarrow>
          (let t' = length (entry_objs h);
               h1 = h\<lparr>entry_objs := entry_objs h @ [entry_objs h ! t]\<rparr>
           in case deepcopy_entries ts h1 (mg, me(t \<mapsto> t')) of
                (ts', h', m') \<Rightarrow> (t' # ts', h', m')))"

fun deepcopy_groups :: "addr list \<Rightarrow> store \<Rightarrow> memo \<Rightarrow> addr list \<times> store \<times> memo" where
  "deepcopy_groups [] h m = ([], h, m)"
| "deepcopy_groups (g # gs) h (mg, me) =
     (case mg g of
        Some g' \<Rightarrow>
          (case deepcopy_groups gs h (mg, me) of (gs', h', m') \<Rightarrow> (g' # gs', h', m'))
      | None \<Rightarrow>
          (let obj = group_objs h ! g;
               (ts', h1, (mg1, me1)) =
                 (case go_titles obj of
                    None \<Rightarrow> (None, h, (mg, me))
                  | Some ts \<Rightarrow>
                      (case deepcopy_entries ts h (mg, me) of (ts', h', m') \<Rightarrow> (Some ts', h', m')));
               g' = length (group_objs h1);
               h2 = h1\<lparr>group_objs := group_objs h1 @ [obj\<lparr>go_titles := ts'\<rparr>]\<rparr>
           in case deepcopy_groups gs h2 (mg1(g \<mapsto> g'), me1) of
                (gs', h', m') \<Rightarrow> (g' # gs', h', m')))"

definition deepcopy_groups_opt ::
  "addr list option \<Rightarrow> store \<Rightarrow> memo \<Rightarrow> addr list option \<times> store \<times> memo" where
  "deepcopy_groups_opt gs h m =
     (case gs of
        None \<Rightarrow> (None, h, m)
      | Some gs \<Rightarrow> (case deepcopy_groups gs h m of (gs', h', m') \<Rightarrow> (Some gs', h', m')))"

definition deepcopy_report :: "addr \<Rightarrow> store \<Rightarrow> addr \<times> store" where
  "deepcopy_report r h =
     (let obj = report_objs h ! r;
          (stats', h1, m1) = deepcopy_groups_opt (ro_stats obj) h (Map.empty, Map.empty);
          (news', h2, m2) = deepcopy_groups_opt (ro_new_titles obj) h1 m1
      in (length (report_objs h2),
          h2\<lparr>report_objs := report_objs h2 @ [obj\<lparr>ro_stats := stats', ro_new_titles := news'\<rparr>]\<rparr>))"

definition deepcopy_list :: "addr list option \<Rightarrow> store \<Rightarrow> addr list option \<times> store" where
  \<comment> \<open>\<open>copy.deepcopy(rss_items) if rss_items else None\<close>\<close>
  "deepcopy_list gs h =
     (if or_nil gs = [] then (None, h)
      else case deepcopy_groups (or_nil gs) h (Map.empty, Map.empty) of
             (gs', h', m') \<Rightarrow> (Some gs', h'))"

definition set_brief :: "decisions \<Rightarrow> pystr \<Rightarrow> addr \<Rightarrow> store \<Rightarrow> store" where
  \<comment> \<open>\<open>d = decisions.get(tid) or {}\<close>; \<open>if d.get("brief"): t["brief"] = d["brief"]\<close>\<close>
  "set_brief ds tid t h =
     (case ds tid of
        None \<Rightarrow> h
      | Some d \<Rightarrow>
          if d_brief d \<noteq> []
          then h\<lparr>entry_objs := (entry_objs h)[t := (entry_objs h ! t)\<lparr>brief := Some (d_brief d)\<rparr>]\<rparr>
          else h)"

fun kept_titles_loop_st ::
  "pystr \<Rightarrow> nat \<Rightarrow> nat \<Rightarrow> addr list \<Rightarrow> pystr set \<Rightarrow> decisions \<Rightarrow> addr list \<Rightarrow> store \<Rightarrow>
     addr list \<times> store" where
  "kept_titles_loop_st section gi ti [] keep_ids ds kept_titles h = (kept_titles, h)"
| "kept_titles_loop_st section gi ti (t # ts) keep_ids ds kept_titles h =
     (let tid = mk_id section gi ti
      in if tid \<in> keep_ids
         then kept_titles_loop_st section gi (Suc ti) ts keep_ids ds (kept_titles @ [t])
                (set_brief ds tid t h)
         else kept_titles_loop_st section gi (Suc ti) ts keep_ids ds kept_titles h)"

fun rewrite_groups_loop_st ::
  "pystr \<Rightarrow> bool \<Rightarrow> nat \<Rightarrow> addr list \<Rightarrow> pystr set \<Rightarrow> decisions \<Rightarrow> addr list \<Rightarrow> store \<Rightarrow>
     addr list \<times> store" where
  "rewrite_groups_loop_st section with_count gi [] keep_ids ds new_groups h = (new_groups, h)"
| "rewrite_groups_loop_st section with_count gi (g # gs) keep_ids ds new_groups h =
     (case kept_titles_loop_st section gi 0 (or_nil (go_titles (group_objs h ! g))) keep_ids ds [] h of
        (kept_titles, h1) \<Rightarrow>
          if kept_titles \<noteq> [] then
            rewrite_groups_loop_st section with_count (Suc gi) gs keep_ids ds (new_groups @ [g])
              (h1\<lparr>group_objs := (group_objs h1)
                     [g := if with_count
                           then (group_objs h1 ! g)\<lparr>go_titles := Some kept_titles,
                                   go_count := Some (int (length kept_titles))\<rparr>
                           else (group_objs h1 ! g)\<lparr>go_titles := Some kept_titles\<rparr>]\<rparr>)
          else rewrite_groups_loop_st section with_count (Suc gi) gs keep_ids ds new_groups h1)"

definition rewrite_optional_st ::
  "pystr \<Rightarrow> addr list option \<Rightarrow> pystr set \<Rightarrow> decisions \<Rightarrow> store \<Rightarrow> addr list option \<times> store" where
  "rewrite_optional_st section gs keep_ids ds h =
     (case gs of
        None \<Rightarrow> (None, h)
      | Some gs \<Rightarrow>
          (case rewrite_groups_loop_st section True 0 gs keep_ids ds [] h of
             (new_groups, h') \<Rightarrow> (Some new_groups, h')))"

definition apply_kept_ids_st ::
  "store \<Rightarrow> addr \<Rightarrow> addr list option \<Rightarrow> addr list option \<Rightarrow> pystr set \<Rightarrow> pointers \<Rightarrow> decisions \<Rightarrow>
     addr \<times> addr list option \<times> addr list option \<times> store" where
  "apply_kept_ids_st h report rss_items rss_new_items keep_ids ptrs ds =
     (let (r, h) = deepcopy_report report h;
          (rss, h) = deepcopy_list rss_items h;
          (rss_new, h) = deepcopy_list rss_new_items h;
          (new_stats, h) =
            rewrite_groups_loop_st (lit ''hot_stats'') True 0
              (or_nil (ro_stats (report_objs h ! r))) keep_ids ds [] h;
          h = h\<lparr>report_objs := (report_objs h)[r := (report_objs h ! r)\<lparr>ro_stats := Some new_stats\<rparr>]\<rparr>;
          (new_sources, h) =
            rewrite_groups_loop_st (lit ''hot_new'') False 0
              (or_nil (ro_new_titles (report_objs h ! r))) keep_ids ds [] h;
          h = h\<lparr>report_objs := (report_objs h)
                 [r := (report_objs h ! r)
                    \<lparr>ro_new_titles := Some new_sources,
                     ro_total_new_count :=
                       Some (sum_list (map (\<lambda>s. int (length (or_nil (go_titles (group_objs h ! s)))))
                               new_sources))\<rparr>]\<rparr>;
          (rss, h) = rewrite_optional_st (lit ''rss_stats'') rss keep_ids ds h;
          (rss_new, h) = rewrite_optional_st (lit ''rss_new'') rss_new keep_ids ds h
      in (r, rss, rss_new, h))"

definition filter_before_send_st ::
  "pylib \<Rightarrow> service \<Rightarrow> quality_gate \<Rightarrow> store \<Rightarrow> addr \<Rightarrow> pystr \<Rightarrow> addr list option \<Rightarrow>
     addr list option \<Rightarrow> (addr \<times> addr list option \<times> addr list option \<times> QualityGateStats) \<times> store" where
  "filter_before_send_st lib svc self h report mode rss_items rss_new_items =
     (let stats0 = \<lparr>total_items = 0, evaluated_items = 0, kept_items = 0, dropped_items = 0,
                     error = []\<rparr>
      in if \<not> enabled self then ((report, rss_items, rss_new_items, stats0), h)
         else if strip (or_empty (API_KEY self)) = []
         then ((report, rss_items, rss_new_items, stats0\<lparr>error := msg_no_api_key\<rparr>), h)
         else
           (let (items, ptrs) =
                  collect_candidates (read_report h report) (read_groups h rss_items)
                    (read_groups h rss_new_items);
                stats1 = stats0\<lparr>total_items := int (length items)\<rparr>
            in if items = [] then ((report, rss_items, rss_new_items, stats1), h)
               else
                 (let evals = eval_items self items;
                      stats2 = stats1\<lparr>evaluated_items := int (length evals)\<rparr>
                  in case snd (judge_in_batches lib svc self mode [] evals) of
                       Inl e \<Rightarrow>
                         ((report, rss_items, rss_new_items, stats2\<lparr>error := describe e\<rparr>), h)
                     | Inr ds \<Rightarrow>
                         (let keep_ids = keep_loop self ds items {};
                              (filtered_report, filtered_rss, filtered_rss_new, h') =
                                apply_kept_ids_st h report rss_items rss_new_items keep_ids ptrs ds;
                              kept = int (card keep_ids)
                          in ((filtered_report, filtered_rss, filtered_rss_new,
                               stats2\<lparr>kept_items := kept,
                                      dropped_items := max 0 (total_items stats2 - kept)\<rparr>), h')))))"

text \<open>
  Notions of the frame argument. \<open>preserved h0 h\<close>: every object of the store \<open>h0\<close> is in
  \<open>h\<close> at its address, unchanged. The addresses at or beyond the sizes of \<open>h0\<close> are the
  fresh ones; \<open>closed\<close> says that a fresh group refers to fresh entries only, which is
  what makes a copy deep. \<open>wf_report\<close> and \<open>wf_groups\<close>: the addresses a caller's
  collection holds are addresses of objects of the store.
\<close>

definition preserved :: "store \<Rightarrow> store \<Rightarrow> bool" where
  "preserved h0 h \<longleftrightarrow>
     take (length (entry_objs h0)) (entry_objs h) = entry_objs h0 \<and>
     take (length (group_objs h0)) (group_objs h) = group_objs h0 \<and>
     take (length (report_objs h0)) (report_objs h) = report_objs h0"

definition fresh_entries :: "store \<Rightarrow> addr list \<Rightarrow> bool" where
  "fresh_entries h0 ts \<longleftrightarrow> (\<forall>t \<in> set ts. length (entry_objs h0) \<le> t)"

definition fresh_groups :: "store \<Rightarrow> store \<Rightarrow> addr list \<Rightarrow> bool" where
  "fresh_groups h0 h gs \<longleftrightarrow>
     (\<forall>g \<in> set gs. length (group_objs h0) \<le> g \<and> g < length (group_objs h))"

definition closed :: "store \<Rightarrow> store \<Rightarrow> bool" where
  "closed h0 h \<longleftrightarrow>
     (\<forall>g. length (group_objs h0) \<le> g \<and> g < length (group_objs h) \<longrightarrow>
          fresh_entries h0 (or_nil (go_titles (group_objs h ! g))))"

definition fresh_memo :: "store \<Rightarrow> store \<Rightarrow> memo \<Rightarrow> bool" where
  "fresh_memo h0 h m \<longleftrightarrow>
     (\<forall>g g'. fst m g = Some g' \<longrightarrow> length (group_objs h0) \<le> g' \<and> g' < length (group_objs h)) \<and>
     (\<forall>t t'. snd m t = Some t' \<longrightarrow> length (entry_objs h0) \<le> t')"

definition report_ok :: "store \<Rightarrow> store \<Rightarrow> addr \<Rightarrow> bool" where
  "report_ok h0 h r \<longleftrightarrow>
     length (report_objs h0) \<le> r \<and> r < length (report_objs h) \<and>
     fresh_groups h0 h (or_nil (ro_stats (report_objs h ! r))) \<and>
     fresh_groups h0 h (or_nil (ro_new_titles (report_objs h ! r)))"

definition wf_group :: "store \<Rightarrow> addr \<Rightarrow> bool" where
  "wf_group h g \<longleftrightarrow>
     g < length (group_objs h) \<and>
     (\<forall>t \<in> set (or_nil (go_titles (group_objs h ! g))). t < length (entry_objs h))"

definition wf_groups :: "store \<Rightarrow> addr list option \<Rightarrow> bool" where
  "wf_groups h gs \<longleftrightarrow> (\<forall>g \<in> set (or_nil gs). wf_group h g)"

definition wf_report :: "store \<Rightarrow> addr \<Rightarrow> bool" where
  "wf_report h r \<longleftrightarrow>
     r < length (report_objs h) \<and> wf_groups h (ro_stats (report_objs h ! r)) \<and>
     wf_groups h (ro_new_titles (report_objs h ! r))"

text \<open>The example report as objects: the entries A, B and C, the two groups, and the
  report at address 0.\<close>

definition example_store :: store where
  "example_store =
     \<lparr>entry_objs = [example_entry ''A'', example_entry ''B'', example_entry ''C''],
      group_objs = [\<lparr>go_word = Some (lit ''AI''), go_titles = Some [0, 1], go_count = Some 2, go_extra = []\<rparr>,
                    \<lparr>go_word = Some (lit ''XR''), go_titles = Some [2], go_count = Some 1, go_extra = []\<rparr>],
      report_objs = [\<lparr>ro_stats = Some [0, 1], ro_new_titles = None, ro_total_new_count = None, ro_extra = []\<rparr>]\<rparr>"

section \<open>Properties of the string functions\<close>

lemma lit_simps: "lit [] = []" "lit (c # cs) = of_char c # lit cs"
  by (simp_all add: lit_def)

lemma str_nat_digit: "n < 10 \<Longrightarrow> str_nat n = [48 + n]"
  by (simp add: str_nat.simps)


lemma batches_loop_done:
  "0 < step \<Longrightarrow> length items \<le> start \<Longrightarrow>
   batches_loop lib svc mode items step start calls ds = (calls, Inr ds)"
  by (subst batches_loop.simps) simp

lemma batches_loop_step:
  "0 < step \<Longrightarrow> start < length items \<Longrightarrow>
   batches_loop lib svc mode items step start calls ds =
     (case judge_batch lib svc mode calls (take step (drop start items)) of
        (calls', Inl e) \<Rightarrow> (calls', Inl e)
      | (calls', Inr chunk_decisions) \<Rightarrow>
          batches_loop lib svc mode items step (start + step) calls' (ds ++ chunk_decisions))"
  by (subst batches_loop.simps) simp

text \<open>The equations that evaluate the pipeline on a concrete input.\<close>

lemmas eval_simps =
  Let_def filter_before_send_def eval_items_def collect_candidates_def judge_in_batches_def
  judge_batch_def parse_response_def safe_json_extract_def unfence_def startswith_def strip_def
  lstrip_def rstrip_def strip_chars_def isspace_def bracket_span_def str_rfind_def slice_def lit_simps
  get_def py_str_def py_bool_def py_int_def normalize_brief_def replace_def splitlines_def
  is_linebreak_def lower_def lower_cp_def or_empty_def or_nil_def link_url_def mk_id_def
  str_nat_digit batches_loop_done batches_loop_step apply_kept_ids_def rewrite_optional_def annotate_def describe_def
  example_row_def example_lib_def example_service_def example_entry_def example_gate_def
  example_group_def example_candidate_def example_decision_def example_item_def

lemma set_lstrip: "set (lstrip s) \<subseteq> set s"
  by (simp add: lstrip_def set_dropWhileD subsetI)

lemma set_rstrip: "set (rstrip s) \<subseteq> set s"
  using set_dropWhileD[of _ isspace "rev s"] by (auto simp: rstrip_def)

lemma set_strip: "set (strip s) \<subseteq> set s"
  unfolding strip_def using set_rstrip set_lstrip by blast

lemma length_rstrip: "length (rstrip s) \<le> length s"
  by (simp add: rstrip_def length_dropWhile_le[of isspace "rev s", simplified])

lemma set_replace: "a \<noteq> b \<Longrightarrow> a \<notin> set (replace s a b)"
  by (auto simp: replace_def)

lemma set_replace_other: "c \<notin> set s \<Longrightarrow> c \<noteq> b \<Longrightarrow> c \<notin> set (replace s a b)"
  by (auto simp: replace_def)

section \<open>Brief annotations\<close>

lemma normalize_brief_hygiene:
  "10 \<notin> set (normalize_brief b) \<and> 13 \<notin> set (normalize_brief b) \<and>
   length (normalize_brief b) \<le> 80"
proof (cases "strip b = []")
  case True
  then show ?thesis by (simp add: normalize_brief_def)
next
  case False
  define r where "r = replace (replace (strip b) 10 32) 13 32"
  have r10: "10 \<notin> set r" unfolding r_def
    by (rule set_replace_other) (simp_all add: set_replace)
  have r13: "13 \<notin> set r" unfolding r_def by (rule set_replace) simp
  have s: "10 \<notin> set (strip r)" "13 \<notin> set (strip r)"
    using r10 r13 set_strip[of r] by auto
  have t: "10 \<notin> set (rstrip (take 80 (strip r)))" "13 \<notin> set (rstrip (take 80 (strip r)))"
    using s set_rstrip[of "take 80 (strip r)"] set_take_subset[of 80 "strip r"] by auto
  have l: "length (rstrip (take 80 (strip r))) \<le> 80"
    using length_rstrip[of "take 80 (strip r)"] by simp
  show ?thesis
    using False s t l by (simp add: normalize_brief_def r_def Let_def)
qed

lemma rows_loop_briefs:
  "rows_loop lib rows ds = Inr ds' \<Longrightarrow>
   (\<forall>rid d. ds rid = Some d \<longrightarrow> brief_ok (d_brief d)) \<Longrightarrow>
   ds' rid = Some d \<Longrightarrow> brief_ok (d_brief d)"
proof (induction rows arbitrary: ds)
  case Nil
  then show ?case by simp
next
  case (Cons row rows)
  show ?case
  proof (cases row)
    case (PDict kvs)
    let ?rid = "strip (py_str lib (get kvs (lit ''id'') (PStr [])))"
    show ?thesis
    proof (cases "?rid = []")
      case True
      with Cons PDict show ?thesis by simp
    next
      case False
      let ?sv = "get kvs (lit ''score'') (PInt 0)"
      from Cons.prems(1) PDict False obtain sc where
        sc: "py_int lib (if py_bool ?sv then ?sv else PInt 0) = Inr sc"
        by (auto simp: Let_def split: sum.splits)
      let ?d = "\<lparr>d_keep = py_bool (get kvs (lit ''keep'') (PBool False)), d_score = sc,
                 d_reason = strip (py_str lib (get kvs (lit ''reason'') (PStr []))),
                 d_brief = normalize_brief (py_str lib (get kvs (lit ''brief'') (PStr [])))\<rparr>"
      from Cons.prems(1) PDict False sc have
        run: "rows_loop lib rows (ds(?rid \<mapsto> ?d)) = Inr ds'"
        by (simp add: Let_def)
      have inv: "\<forall>r d. (ds(?rid \<mapsto> ?d)) r = Some d \<longrightarrow> brief_ok (d_brief d)"
        using Cons.prems(2) normalize_brief_hygiene by (auto simp: brief_ok_def)
      from Cons.IH[OF run inv Cons.prems(3)] show ?thesis .
    qed
  qed (use Cons in simp_all)
qed

lemma parse_response_briefs:
  "parse_response lib raw = Inr ds \<Longrightarrow> ds rid = Some d \<Longrightarrow> brief_ok (d_brief d)"
  unfolding parse_response_def
  by (auto split: option.splits if_splits sum.splits pyval.splits
           dest!: rows_loop_briefs[where rid = rid and d = d])

lemma long_brief_run:
  "snd (judge_batch (example_lib [example_row ''hot_stats:0:0'' True 80 long_brief])
          example_service (lit ''daily'') [] []) =
     Inr [lit ''hot_stats:0:0'' \<mapsto>
            \<lparr>d_keep = True, d_score = 80, d_reason = [],
             d_brief = replicate 47 97 @ [32] @ replicate 32 98\<rparr>]"
  by (simp add: eval_simps long_brief_def)

text \<open>
  Claim C7 (brief annotation hygiene). Every decision that \<open>_judge_batch\<close> returns for a
  service response holds a \<open>brief\<close> without line feed (code point 10) and without
  carriage return (13), of at most 80 code points; and the rewriter writes exactly
  that value into the entry of the decision's id when it is not empty (an empty brief
  leaves the entry's own \<open>brief\<close> as it was).
\<close>

theorem brief_hygiene:
  assumes "snd (judge_batch lib svc mode calls items) = Inr ds" and "ds rid = Some d"
  shows "10 \<notin> set (d_brief d) \<and> 13 \<notin> set (d_brief d) \<and> length (d_brief d) \<le> 80 \<and>
         brief (annotate ds rid t) = (if d_brief d = [] then brief t else Some (d_brief d))"
proof -
  from assms(1) have "\<exists>raw. parse_response lib raw = Inr ds"
    by (auto simp: judge_batch_def split: sum.splits)
  then have "brief_ok (d_brief d)"
    using parse_response_briefs assms(2) by blast
  then show ?thesis
    using assms(2) by (simp add: brief_ok_def annotate_def)
qed

text \<open>The witness: a brief of 95 code points with a line feed in the middle is stored
  as 80 code points without it.\<close>

theorem brief_hygiene_witness:
  "length long_brief = 95 \<and> 10 \<in> set long_brief \<and>
   snd (judge_batch (example_lib [example_row ''hot_stats:0:0'' True 80 long_brief])
          example_service (lit ''daily'') [] []) =
     Inr [lit ''hot_stats:0:0'' \<mapsto>
            \<lparr>d_keep = True, d_score = 80, d_reason = [],
             d_brief = replicate 47 97 @ [32] @ replicate 32 98\<rparr>] \<and>
   10 \<notin> set (replicate 47 97 @ [32] @ replicate 32 (98::nat)) \<and>
   length (replicate 47 97 @ [32] @ replicate 32 (98::nat)) \<le> 80 \<and>
   brief (annotate
            [lit ''hot_stats:0:0'' \<mapsto>
               \<lparr>d_keep = True, d_score = 80, d_reason = [],
                d_brief = replicate 47 97 @ [32] @ replicate 32 98\<rparr>]
            (lit ''hot_stats:0:0'') (example_entry ''A'')) =
     Some (replicate 47 97 @ [32] @ replicate 32 98)"
  using brief_hygiene[OF long_brief_run, where rid = "lit ''hot_stats:0:0''"
      and t = "example_entry ''A''"] long_brief_run
  by (simp add: long_brief_def)

section \<open>The decision merger\<close>

lemma keep_loop_eq:
  "keep_loop self ds items K = K \<union> {i \<in> item_id ` set items. keeps self ds i}"
  by (induction items arbitrary: K) (auto simp: Let_def keeps_def split: option.splits)

text \<open>
  Claim C2 (merger keep law). For a candidate whose id has a decision in the map, the
  id is in the kept-id set exactly when the decision's \<open>keep\<close> is true and its score is
  at least \<open>min_score\<close>; for a candidate whose id has no decision, the id is in the
  kept-id set.
\<close>

theorem merger_keep_law:
  assumes "it \<in> set items"
  shows "(case ds (item_id it) of
            Some d \<Rightarrow>
              item_id it \<in> keep_loop self ds items {} \<longleftrightarrow>
                d_keep d \<and> min_score self \<le> d_score d
          | None \<Rightarrow> item_id it \<in> keep_loop self ds items {})"
  using assms by (auto simp: keep_loop_eq keeps_def split: option.splits)

text \<open>The witness: with \<open>min_score = 60\<close>, a score of 60 is kept, a score of 59 and a
  \<open>keep = false\<close> are dropped, and the candidate the service left out is kept.\<close>

theorem merger_keep_law_witness:
  "example_candidate ''a'' \<in>
     set [example_candidate ''a'', example_candidate ''b'', example_candidate ''c'',
          example_candidate ''d''] \<and>
   keep_loop example_gate
     [lit ''a'' \<mapsto> example_decision True 60, lit ''b'' \<mapsto> example_decision True 59,
      lit ''c'' \<mapsto> example_decision False 90]
     [example_candidate ''a'', example_candidate ''b'', example_candidate ''c'',
      example_candidate ''d''] {} = {lit ''a'', lit ''d''}"
  using merger_keep_law[where it = "example_candidate ''a''"
      and items = "[example_candidate ''a'', example_candidate ''b'', example_candidate ''c'',
                    example_candidate ''d'']"
      and ds = "[lit ''a'' \<mapsto> example_decision True 60, lit ''b'' \<mapsto> example_decision True 59,
                 lit ''c'' \<mapsto> example_decision False 90]"
      and self = example_gate]
  by (auto simp: example_candidate_def example_decision_def example_gate_def lit_simps)

section \<open>The structure rewriter\<close>
















section \<open>Fail-open\<close>








section \<open>Candidates beyond the evaluation cap\<close>

text \<open>
  Claim C3 (default-keep beyond the cap) does not hold of the code. With
  \<open>max_items = 1\<close> and the three candidates A, B and C, only A is sent to the service.
  The service answers with a decision for the id of B, \<open>hot_stats:0:1\<close>, which it was
  never sent; the merger looks every candidate up in the decision map, finds it, and
  B, at position 1, is dropped.
\<close>

theorem beyond_cap_dropped:
  "eval_items (example_gate\<lparr>max_items := 1\<rparr>)
     (fst (collect_candidates example_report None None)) =
     [\<lparr>item_id = lit ''hot_stats:0:0'', item_title = lit ''A'', item_source_name = [],
       item_group = lit ''AI'', item_section = lit ''hot_stats'', item_url = []\<rparr>] \<and>
   filter_before_send (example_lib [example_row ''hot_stats:0:1'' False 0 []]) example_service
     (example_gate\<lparr>max_items := 1\<rparr>) example_report (lit ''daily'') None None =
   (\<lparr>stats = Some [example_group ''AI'' [example_entry ''A''],
                   example_group ''XR'' [example_entry ''C'']],
      new_titles = Some [], total_new_count = Some 0, report_extra = []\<rparr>,
    None, None,
    \<lparr>total_items = 3, evaluated_items = 1, kept_items = 2, dropped_items = 1, error = []\<rparr>)"
  by (simp add: eval_simps example_report_def)

section \<open>Batching\<close>

lemma chunks_of_Nil: "chunks_of B [] = []"
  by (simp add: chunks_of.simps)

lemma chunks_of_step: "0 < B \<Longrightarrow> xs \<noteq> [] \<Longrightarrow> chunks_of B xs = take B xs # chunks_of B (drop B xs)"
  by (subst chunks_of.simps) simp

lemma concat_chunks_of: "0 < B \<Longrightarrow> concat (chunks_of B xs) = xs"
proof (induction B xs rule: chunks_of.induct)
  case (1 B xs)
  show ?case
  proof (cases "xs = []")
    case True
    then show ?thesis by (simp add: chunks_of_Nil)
  next
    case False
    with 1 show ?thesis by (simp add: chunks_of_step)
  qed
qed

lemma chunks_of_sizes: "c \<in> set (chunks_of B xs) \<Longrightarrow> c \<noteq> [] \<and> length c \<le> B"
proof (induction B xs rule: chunks_of.induct)
  case (1 B xs)
  show ?case
  proof (cases "B = 0 \<or> xs = []")
    case True
    with "1.prems" show ?thesis by (simp add: chunks_of.simps)
  next
    case False
    with "1.prems" have "c = take B xs \<or> c \<in> set (chunks_of B (drop B xs))"
      by (simp add: chunks_of_step)
    then show ?thesis
    proof
      assume "c = take B xs"
      with False show ?thesis by simp
    next
      assume "c \<in> set (chunks_of B (drop B xs))"
      with False "1.IH" show ?thesis by blast
    qed
  qed
qed

lemma ceil_div_ge: "0 < B \<Longrightarrow> B \<le> n \<Longrightarrow> (n + B - 1) div B = Suc ((n - B + B - 1) div B)" for n B :: nat
proof -
  assume B: "0 < B" and le: "B \<le> n"
  obtain m where m: "n = m + B" using le by (metis le_add_diff_inverse2)
  have "(m + B + B - 1) div B = (m + B - 1 + B) div B" using B by simp
  also have "\<dots> = Suc ((m + B - 1) div B)" using B by (simp only: div_add_self2)
  finally show ?thesis by (simp add: m)
qed

lemma ceil_div_lt: "0 < n \<Longrightarrow> n < B \<Longrightarrow> (n + B - 1) div B = Suc 0" for n B :: nat
proof -
  assume n: "0 < n" and lt: "n < B"
  obtain k where k: "n = Suc k" using n by (cases n) auto
  have "(Suc k + B - 1) div B = (k + B) div B" by simp
  also have "\<dots> = Suc (k div B)" using lt k by (simp only: div_add_self2)
  also have "k div B = 0" using lt k by simp
  finally show ?thesis by (simp add: k)
qed


lemma length_chunks_of: "0 < B \<Longrightarrow> length (chunks_of B xs) = (length xs + B - 1) div B"
proof (induction B xs rule: chunks_of.induct)
  case (1 B xs)
  show ?case
  proof (cases "xs = []")
    case True
    with "1.prems" show ?thesis by (simp add: chunks_of_Nil)
  next
    case False
    with "1.prems" "1.IH" have ih:
      "length (chunks_of B (drop B xs)) = (length xs - B + B - 1) div B"
      by simp
    show ?thesis
    proof (cases "B \<le> length xs")
      case True
      from ceil_div_ge[OF "1.prems" True] ih False "1.prems" show ?thesis
        by (simp add: chunks_of_step)
    next
      case F: False
      then have d: "chunks_of B (drop B xs) = []" by (simp add: chunks_of_Nil)
      from False F have "(length xs + B - 1) div B = Suc 0"
        by (intro ceil_div_lt) simp_all
      with d False "1.prems" show ?thesis by (simp add: chunks_of_step)
    qed
  qed
qed

lemma nth_chunks_of:
  "i < length (chunks_of B xs) \<Longrightarrow> chunks_of B xs ! i = take B (drop (i * B) xs)"
proof (induction B xs arbitrary: i rule: chunks_of.induct)
  case (1 B xs)
  have ne: "\<not> (B = 0 \<or> xs = [])"
  proof
    assume "B = 0 \<or> xs = []"
    then have "chunks_of B xs = []" by (subst chunks_of.simps) simp
    with "1.prems" show False by simp
  qed
  then have st: "chunks_of B xs = take B xs # chunks_of B (drop B xs)"
    by (simp add: chunks_of_step)
  show ?case
  proof (cases i)
    case 0
    then show ?thesis by (simp add: st)
  next
    case (Suc j)
    with "1.prems" st have "j < length (chunks_of B (drop B xs))" by simp
    from "1.IH"[OF ne this] Suc show ?thesis by (simp add: st add.commute)
  qed
qed

lemma length_chunk_answers [simp]: "length (chunk_answers lib svc mode calls cs) = length cs"
  by (induction cs arbitrary: calls) simp_all

lemma fst_judge_batch: "fst (judge_batch lib svc mode calls c) = calls @ [(mode, c)]"
  by (simp add: judge_batch_def)

lemma batches_loop_chunks:
  "0 < B \<Longrightarrow>
   batches_loop lib svc mode items B start calls ds =
     (let cs = chunks_of B (drop start items);
          answers = chunk_answers lib svc mode calls cs;
          k = length (takeWhile (\<lambda>a. \<not> isl a) answers)
      in if k = length cs
         then (calls @ map (Pair mode) cs, Inr (foldl (++) ds (map projr answers)))
         else (calls @ map (Pair mode) (take (Suc k) cs), Inl (projl (answers ! k))))"
proof (induction lib svc mode items B start calls ds rule: batches_loop.induct)
  case (1 lib svc mode items step start calls ds)
  show ?case
  proof (cases "length items \<le> start")
    case True
    with "1.prems" show ?thesis
      by (simp add: batches_loop_done chunks_of_Nil)
  next
    case False
    let ?c = "take step (drop start items)"
    from False have ne: "drop start items \<noteq> []" by simp
    have cs: "chunks_of step (drop start items) = ?c # chunks_of step (drop (start + step) items)"
      using "1.prems" ne by (simp add: chunks_of_step add.commute)
    obtain a where jb: "judge_batch lib svc mode calls ?c = (calls @ [(mode, ?c)], a)"
      by (simp add: judge_batch_def)
    show ?thesis
    proof (cases a)
      case (Inl e)
      with "1.prems" False jb cs show ?thesis
        by (simp add: batches_loop_step)
    next
      case (Inr cd)
      from "1.prems" have "step \<noteq> 0" by simp
      note ih = "1.IH"[OF this False jb[symmetric] Inr "1.prems"]
      from "1.prems" False jb Inr cs show ?thesis
        by (simp add: batches_loop_step ih Let_def)
    qed
  qed
qed

lemma all_answers_iff:
  "length (takeWhile P xs) = length xs \<longleftrightarrow> (\<forall>x \<in> set xs. P x)"
proof
  assume "length (takeWhile P xs) = length xs"
  then have "takeWhile P xs = xs"
    using takeWhile_eq_take[of P xs] by simp
  then show "\<forall>x \<in> set xs. P x" by (simp add: takeWhile_eq_all_conv)
next
  assume "\<forall>x \<in> set xs. P x"
  then have "takeWhile P xs = xs" by (simp add: takeWhile_eq_all_conv)
  then show "length (takeWhile P xs) = length xs" by (rule arg_cong)
qed

lemma batches_loop_from_start:
  assumes "0 < B"
  shows "batches_loop lib svc mode items B 0 calls ds =
     (if length (takeWhile (\<lambda>a. \<not> isl a) (chunk_answers lib svc mode calls (chunks_of B items))) =
         length (chunks_of B items)
      then (calls @ map (Pair mode) (chunks_of B items),
            Inr (foldl (++) ds (map projr (chunk_answers lib svc mode calls (chunks_of B items)))))
      else (calls @ map (Pair mode)
              (take (Suc (length (takeWhile (\<lambda>a. \<not> isl a)
                                   (chunk_answers lib svc mode calls (chunks_of B items)))))
                 (chunks_of B items)),
            Inl (projl (chunk_answers lib svc mode calls (chunks_of B items) !
                   length (takeWhile (\<lambda>a. \<not> isl a)
                             (chunk_answers lib svc mode calls (chunks_of B items)))))))"
  using batches_loop_chunks[OF assms, of lib svc mode items 0 calls ds] by (simp add: Let_def)

lemma chunks_of_example:
  "chunks_of 2 [example_item ''hot_stats:0:0'' ''A'' ''AI'', example_item ''hot_stats:0:1'' ''B'' ''AI'',
                example_item ''hot_stats:1:0'' ''C'' ''XR''] =
     [[example_item ''hot_stats:0:0'' ''A'' ''AI'', example_item ''hot_stats:0:1'' ''B'' ''AI''],
      [example_item ''hot_stats:1:0'' ''C'' ''XR'']]"
  by (simp add: chunks_of_step chunks_of_Nil)

text \<open>
  Claim C8 (batch partitioning). For a non-empty list of \<open>n\<close> items and a batch size
  \<open>B > 0\<close>, the chunks are \<open>ceil(n/B)\<close> many, contiguous (chunk \<open>i\<close> is
  \<open>items[i*B : i*B + B]\<close>), not empty, of at most \<open>B\<close> items, and cover the list in
  order. When no call of the pass raises, \<open>_judge_in_batches\<close> has issued exactly one
  call per chunk, in the order of the chunks, and returns the union of the chunks'
  decision maps (a later chunk's decision for an id replacing an earlier one). When a
  call raises, the calls issued are those up to and including the first that raised,
  still one per chunk and in order, and its exception is what the pass raises.
\<close>

theorem batch_partitioning:
  assumes "items \<noteq> []" and "0 < batch_size self"
  shows "let B = nat (batch_size self);
             cs = chunks_of B items;
             answers = chunk_answers lib svc mode calls cs;
             k = length (takeWhile (\<lambda>a. \<not> isl a) answers)
         in length cs = (length items + B - 1) div B \<and> concat cs = items \<and>
            (\<forall>i < length cs.
               cs ! i = take B (drop (i * B) items) \<and> cs ! i \<noteq> [] \<and> length (cs ! i) \<le> B) \<and>
            (k = length cs \<longleftrightarrow> (\<forall>a \<in> set answers. \<not> isl a)) \<and>
            judge_in_batches lib svc self mode calls items =
              (if k = length cs
               then (calls @ map (Pair mode) cs, Inr (foldl (++) Map.empty (map projr answers)))
               else (calls @ map (Pair mode) (take (Suc k) cs), Inl (projl (answers ! k))))"
proof -
  define B where "B = nat (batch_size self)"
  have B: "0 < B" using assms(2) by (simp add: B_def)
  have sizes: "\<forall>i < length (chunks_of B items).
      chunks_of B items ! i = take B (drop (i * B) items) \<and> chunks_of B items ! i \<noteq> [] \<and>
      length (chunks_of B items ! i) \<le> B"
    using nth_chunks_of[of _ B items] chunks_of_sizes[of _ B items] nth_mem by blast
  have k: "length (takeWhile (\<lambda>a. \<not> isl a) (chunk_answers lib svc mode calls (chunks_of B items))) =
        length (chunks_of B items) \<longleftrightarrow>
        (\<forall>a \<in> set (chunk_answers lib svc mode calls (chunks_of B items)). \<not> isl a)"
    using all_answers_iff[of "\<lambda>a. \<not> isl a" "chunk_answers lib svc mode calls (chunks_of B items)"]
    by simp
  have run: "judge_in_batches lib svc self mode calls items =
      batches_loop lib svc mode items B 0 calls Map.empty"
    using assms by (simp add: judge_in_batches_def B_def)
  show ?thesis
    unfolding Let_def B_def[symmetric] run
    apply (intro conjI)
        apply (rule length_chunks_of[OF B])
       apply (rule concat_chunks_of[OF B])
      apply (rule sizes)
     apply (rule k)
    apply (rule batches_loop_from_start[OF B])
    done
qed

text \<open>The witness: three candidates in batches of two make two calls, \<open>[A, B]\<close> then
  \<open>[C]\<close>, and the decisions of the first answer are returned.\<close>

theorem batch_partitioning_witness:
  "[example_item ''hot_stats:0:0'' ''A'' ''AI'', example_item ''hot_stats:0:1'' ''B'' ''AI'',
    example_item ''hot_stats:1:0'' ''C'' ''XR''] \<noteq> [] \<and>
   0 < batch_size (example_gate\<lparr>batch_size := 2\<rparr>) \<and>
   judge_in_batches (example_lib [example_row ''hot_stats:0:1'' False 30 []]) quiet_second_service
     (example_gate\<lparr>batch_size := 2\<rparr>) (lit ''daily'') []
     [example_item ''hot_stats:0:0'' ''A'' ''AI'', example_item ''hot_stats:0:1'' ''B'' ''AI'',
      example_item ''hot_stats:1:0'' ''C'' ''XR''] =
   ([(lit ''daily'', [example_item ''hot_stats:0:0'' ''A'' ''AI'',
                      example_item ''hot_stats:0:1'' ''B'' ''AI'']),
     (lit ''daily'', [example_item ''hot_stats:1:0'' ''C'' ''XR''])],
    Inr [lit ''hot_stats:0:1'' \<mapsto> \<lparr>d_keep = False, d_score = 30, d_reason = [], d_brief = []\<rparr>])"
  using batch_partitioning[where self = "example_gate\<lparr>batch_size := 2\<rparr>"
      and items = "[example_item ''hot_stats:0:0'' ''A'' ''AI'', example_item ''hot_stats:0:1'' ''B'' ''AI'',
                    example_item ''hot_stats:1:0'' ''C'' ''XR'']"
      and lib = "example_lib [example_row ''hot_stats:0:1'' False 30 []]"
      and svc = quiet_second_service and mode = "lit ''daily''" and calls = "[]"]
  by (simp add: eval_simps quiet_second_service_def)

section \<open>Candidate ids\<close>






















section \<open>Response parsing\<close>



























section \<open>The caller's objects\<close>

lemma preserved_refl: "preserved h h"
  by (simp add: preserved_def)

lemma preserved_lengths:
  "preserved h0 h \<Longrightarrow>
     length (entry_objs h0) \<le> length (entry_objs h) \<and>
     length (group_objs h0) \<le> length (group_objs h) \<and>
     length (report_objs h0) \<le> length (report_objs h)"
  unfolding preserved_def
  by (metis length_take min.cobounded1 min.commute)

lemma deepcopy_entries_frame:
  assumes "deepcopy_entries ts h m = (ts', h', m')" "preserved h0 h" "fresh_memo h0 h m"
  shows "preserved h0 h' \<and> fresh_entries h0 ts' \<and> fresh_memo h0 h' m' \<and>
         group_objs h' = group_objs h \<and> report_objs h' = report_objs h"
  using assms
proof (induction ts arbitrary: h m ts' h' m')
  case Nil
  then show ?case by (simp add: fresh_entries_def)
next
  case (Cons t ts)
  obtain mg me where m: "m = (mg, me)" by (cases m)
  show ?case
  proof (cases "me t")
    case (Some t1)
    obtain ts1 h1 m1 where r: "deepcopy_entries ts h (mg, me) = (ts1, h1, m1)"
      by (cases "deepcopy_entries ts h (mg, me)")
    with Cons.prems(1) Some m have eq: "ts' = t1 # ts1" "h' = h1" "m' = m1" by simp_all
    from Cons.IH[OF r Cons.prems(2) Cons.prems(3)[unfolded m]] Some Cons.prems(3) m eq
    show ?thesis by (auto simp: fresh_entries_def fresh_memo_def)
  next
    case None
    let ?h1 = "h\<lparr>entry_objs := entry_objs h @ [entry_objs h ! t]\<rparr>"
    let ?t1 = "length (entry_objs h)"
    obtain ts1 h2 m1 where r: "deepcopy_entries ts ?h1 (mg, me(t \<mapsto> ?t1)) = (ts1, h2, m1)"
      by (cases "deepcopy_entries ts ?h1 (mg, me(t \<mapsto> ?t1))")
    with Cons.prems(1) None m have eq: "ts' = ?t1 # ts1" "h' = h2" "m' = m1"
      by (simp_all add: Let_def)
    from preserved_lengths[OF Cons.prems(2)] have le: "length (entry_objs h0) \<le> ?t1" by simp
    have p1: "preserved h0 ?h1"
      using Cons.prems(2) le by (simp add: preserved_def)
    have f1: "fresh_memo h0 ?h1 (mg, me(t \<mapsto> ?t1))"
      using Cons.prems(3) m le by (auto simp: fresh_memo_def)
    from Cons.IH[OF r p1 f1] le eq show ?thesis
      by (auto simp: fresh_entries_def)
  qed
qed

lemma fresh_groups_mono:
  "fresh_groups h0 h gs \<Longrightarrow> length (group_objs h) \<le> length (group_objs h') \<Longrightarrow> fresh_groups h0 h' gs"
  by (auto simp: fresh_groups_def)

lemma deepcopy_groups_frame:
  assumes "deepcopy_groups gs h m = (gs', h', m')" "preserved h0 h" "closed h0 h" "fresh_memo h0 h m"
  shows "preserved h0 h' \<and> closed h0 h' \<and> fresh_groups h0 h' gs' \<and> fresh_memo h0 h' m' \<and>
         length (group_objs h) \<le> length (group_objs h') \<and> report_objs h' = report_objs h"
  using assms
proof (induction gs arbitrary: h m gs' h' m')
  case Nil
  then show ?case by (simp add: fresh_groups_def)
next
  case (Cons g gs)
  obtain mg me where m: "m = (mg, me)" by (cases m)
  show ?case
  proof (cases "mg g")
    case (Some g1)
    obtain gs1 h1 m1 where r: "deepcopy_groups gs h (mg, me) = (gs1, h1, m1)"
      by (cases "deepcopy_groups gs h (mg, me)")
    with Cons.prems(1) Some m have eq: "gs' = g1 # gs1" "h' = h1" "m' = m1" by simp_all
    from Cons.prems(4) Some m have g1: "length (group_objs h0) \<le> g1" "g1 < length (group_objs h)"
      by (auto simp: fresh_memo_def)
    from Cons.IH[OF r Cons.prems(2,3) Cons.prems(4)[unfolded m]] g1 eq
    show ?thesis by (auto simp: fresh_groups_def)
  next
    case None
    let ?obj = "group_objs h ! g"
    obtain ts1 h1 mg1 me1 where c:
      "(case go_titles ?obj of
          None \<Rightarrow> (None, h, (mg, me))
        | Some ts \<Rightarrow>
            (case deepcopy_entries ts h (mg, me) of (ts', h', m') \<Rightarrow> (Some ts', h', m'))) =
       (ts1, h1, (mg1, me1))"
      by (metis prod.exhaust)
    have c1: "preserved h0 h1 \<and> fresh_entries h0 (or_nil ts1) \<and> fresh_memo h0 h1 (mg1, me1) \<and>
        group_objs h1 = group_objs h \<and> report_objs h1 = report_objs h"
    proof (cases "go_titles ?obj")
      case None
      with c Cons.prems m show ?thesis by (auto simp: fresh_entries_def or_nil_def)
    next
      case (Some ts)
      then obtain ts2 where d: "deepcopy_entries ts h (mg, me) = (ts2, h1, (mg1, me1))" "ts1 = Some ts2"
        using c by (auto split: prod.splits)
      from deepcopy_entries_frame[OF d(1) Cons.prems(2) Cons.prems(4)[unfolded m]] d(2)
      show ?thesis by (simp add: or_nil_def)
    qed
    from c1 have c1p: "preserved h0 h1" and c1e: "fresh_entries h0 (or_nil ts1)"
      and c1m: "fresh_memo h0 h1 (mg1, me1)" and c1g: "group_objs h1 = group_objs h"
      and c1r: "report_objs h1 = report_objs h" by simp_all
    let ?g1 = "length (group_objs h1)"
    let ?h2 = "h1\<lparr>group_objs := group_objs h1 @ [?obj\<lparr>go_titles := ts1\<rparr>]\<rparr>"
    obtain gs1 h3 m1 where r: "deepcopy_groups gs ?h2 (mg1(g \<mapsto> ?g1), me1) = (gs1, h3, m1)"
      by (metis prod.exhaust)
    from Cons.prems(1) None m c r have eq: "gs' = ?g1 # gs1" "h' = h3" "m' = m1"
      by (simp_all add: Let_def)
    from preserved_lengths[OF c1p] have le: "length (group_objs h0) \<le> ?g1" by simp
    have p2: "preserved h0 ?h2"
      using c1p le by (simp add: preserved_def)
    have cl2: "closed h0 ?h2"
      unfolding closed_def
    proof (intro allI impI)
      fix a assume a: "length (group_objs h0) \<le> a \<and> a < length (group_objs ?h2)"
      show "fresh_entries h0 (or_nil (go_titles (group_objs ?h2 ! a)))"
      proof (cases "a < ?g1")
        case True
        with a c1g Cons.prems(3) show ?thesis by (simp add: closed_def nth_append)
      next
        case False
        with a have "a = ?g1" by simp
        with c1e show ?thesis by (simp add: nth_append)
      qed
    qed
    have f2: "fresh_memo h0 ?h2 (mg1(g \<mapsto> ?g1), me1)"
      using c1m le by (auto simp: fresh_memo_def less_Suc_eq)
    from Cons.IH[OF r p2 cl2 f2] have ih: "preserved h0 h3" "closed h0 h3" "fresh_groups h0 h3 gs1"
      "fresh_memo h0 h3 m1" "length (group_objs ?h2) \<le> length (group_objs h3)"
      "report_objs h3 = report_objs ?h2" by simp_all
    from ih(5) le have "length (group_objs h0) \<le> ?g1 \<and> ?g1 < length (group_objs h3)" by simp
    with ih c1g c1r eq show ?thesis by (simp add: fresh_groups_def)
  qed
qed

lemma set_brief_frame:
  assumes "preserved h0 h" "length (entry_objs h0) \<le> t"
  shows "preserved h0 (set_brief ds tid t h) \<and>
         group_objs (set_brief ds tid t h) = group_objs h \<and>
         report_objs (set_brief ds tid t h) = report_objs h"
  using assms by (auto simp: set_brief_def preserved_def split: option.splits)

lemma kept_titles_loop_st_frame:
  assumes "kept_titles_loop_st section gi ti ts keep_ids ds kept h = (kept', h')"
    "preserved h0 h" "fresh_entries h0 ts" "fresh_entries h0 kept"
  shows "preserved h0 h' \<and> fresh_entries h0 kept' \<and> group_objs h' = group_objs h \<and>
         report_objs h' = report_objs h"
  using assms
proof (induction ts arbitrary: ti kept h)
  case Nil
  then show ?case by simp
next
  case (Cons t ts)
  from Cons.prems(3) have t: "length (entry_objs h0) \<le> t" and ts: "fresh_entries h0 ts"
    by (simp_all add: fresh_entries_def)
  show ?case
  proof (cases "mk_id section gi ti \<in> keep_ids")
    case True
    with Cons.prems(1) have r: "kept_titles_loop_st section gi (Suc ti) ts keep_ids ds (kept @ [t])
        (set_brief ds (mk_id section gi ti) t h) = (kept', h')"
      by (simp add: Let_def)
    from set_brief_frame[OF Cons.prems(2) t, of ds "mk_id section gi ti"] have
      sb: "preserved h0 (set_brief ds (mk_id section gi ti) t h)"
      "group_objs (set_brief ds (mk_id section gi ti) t h) = group_objs h"
      "report_objs (set_brief ds (mk_id section gi ti) t h) = report_objs h" by simp_all
    have k: "fresh_entries h0 (kept @ [t])"
      using Cons.prems(4) t by (simp add: fresh_entries_def)
    from Cons.IH[OF r sb(1) ts k] sb(2,3) show ?thesis by simp
  next
    case False
    with Cons.prems(1) have r: "kept_titles_loop_st section gi (Suc ti) ts keep_ids ds kept h = (kept', h')"
      by (simp add: Let_def)
    from Cons.IH[OF r Cons.prems(2) ts Cons.prems(4)] show ?thesis .
  qed
qed

lemma rewrite_groups_loop_st_frame:
  assumes "rewrite_groups_loop_st section wc gi gs keep_ids ds acc h = (acc', h')"
    "preserved h0 h" "closed h0 h" "fresh_groups h0 h gs" "fresh_groups h0 h acc"
  shows "preserved h0 h' \<and> closed h0 h' \<and> fresh_groups h0 h' acc' \<and>
         length (group_objs h') = length (group_objs h) \<and> report_objs h' = report_objs h"
  using assms
proof (induction gs arbitrary: gi acc h)
  case Nil
  then show ?case by simp
next
  case (Cons g gs)
  from Cons.prems(4) have g: "length (group_objs h0) \<le> g" "g < length (group_objs h)"
    and gs: "fresh_groups h0 h gs" by (simp_all add: fresh_groups_def)
  let ?ts = "or_nil (go_titles (group_objs h ! g))"
  from Cons.prems(3) g have fts: "fresh_entries h0 ?ts" by (simp add: closed_def)
  obtain kept h1 where k: "kept_titles_loop_st section gi 0 ?ts keep_ids ds [] h = (kept, h1)"
    by (metis prod.exhaust)
  have fe: "fresh_entries h0 []" by (simp add: fresh_entries_def)
  from kept_titles_loop_st_frame[OF k Cons.prems(2) fts fe] have
    k1: "preserved h0 h1" "fresh_entries h0 kept" "group_objs h1 = group_objs h"
    "report_objs h1 = report_objs h" by simp_all
  have cl1: "closed h0 h1" using Cons.prems(3) k1(3) by (simp add: closed_def)
  show ?case
  proof (cases "kept = []")
    case True
    with Cons.prems(1) k have r: "rewrite_groups_loop_st section wc (Suc gi) gs keep_ids ds acc h1 = (acc', h')"
      by simp
    have "fresh_groups h0 h1 gs" "fresh_groups h0 h1 acc"
      using gs Cons.prems(5) k1(3) by (simp_all add: fresh_groups_def)
    from Cons.IH[OF r k1(1) cl1 this] k1(3,4) show ?thesis by simp
  next
    case False
    let ?obj = "if wc then (group_objs h1 ! g)\<lparr>go_titles := Some kept, go_count := Some (int (length kept))\<rparr>
                else (group_objs h1 ! g)\<lparr>go_titles := Some kept\<rparr>"
    let ?h2 = "h1\<lparr>group_objs := (group_objs h1)[g := ?obj]\<rparr>"
    from False Cons.prems(1) k have r:
      "rewrite_groups_loop_st section wc (Suc gi) gs keep_ids ds (acc @ [g]) ?h2 = (acc', h')"
      by simp
    have p2: "preserved h0 ?h2"
      using k1(1) g(1) by (simp add: preserved_def)
    have ot: "or_nil (go_titles ?obj) = kept" by (simp add: or_nil_def)
    have cl2: "closed h0 ?h2"
      unfolding closed_def
    proof (intro allI impI)
      fix a assume a: "length (group_objs h0) \<le> a \<and> a < length (group_objs ?h2)"
      show "fresh_entries h0 (or_nil (go_titles (group_objs ?h2 ! a)))"
      proof (cases "a = g")
        case True
        with a have "group_objs ?h2 ! a = ?obj" by simp
        with ot k1(2) show ?thesis by simp
      next
        case False
        with a cl1 show ?thesis by (simp add: closed_def)
      qed
    qed
    have f2: "fresh_groups h0 ?h2 gs" "fresh_groups h0 ?h2 (acc @ [g])"
      using gs Cons.prems(5) k1(3) g by (simp_all add: fresh_groups_def)
    from Cons.IH[OF r p2 cl2 f2] k1(3,4) show ?thesis by simp
  qed
qed

lemma closed_refl: "closed h h"
  by (auto simp: closed_def)

lemma fresh_memo_empty: "fresh_memo h0 h (Map.empty, Map.empty)"
  by (simp add: fresh_memo_def)

lemma deepcopy_groups_opt_frame:
  assumes "deepcopy_groups_opt gs h m = (gs', h', m')" "preserved h0 h" "closed h0 h" "fresh_memo h0 h m"
  shows "preserved h0 h' \<and> closed h0 h' \<and> fresh_groups h0 h' (or_nil gs') \<and> fresh_memo h0 h' m' \<and>
         length (group_objs h) \<le> length (group_objs h') \<and> report_objs h' = report_objs h"
proof (cases gs)
  case None
  with assms show ?thesis by (simp add: deepcopy_groups_opt_def or_nil_def fresh_groups_def)
next
  case (Some xs)
  with assms(1) obtain ys where d: "deepcopy_groups xs h m = (ys, h', m')" and g: "gs' = Some ys"
    by (auto simp: deepcopy_groups_opt_def split: prod.splits)
  from deepcopy_groups_frame[OF d assms(2-4)] g show ?thesis by (simp add: or_nil_def)
qed

lemma deepcopy_report_frame:
  assumes "deepcopy_report r h0 = (r1, h1)"
  shows "preserved h0 h1 \<and> closed h0 h1 \<and> report_ok h0 h1 r1"
proof -
  let ?obj = "report_objs h0 ! r"
  obtain s1 ha ma where a: "deepcopy_groups_opt (ro_stats ?obj) h0 (Map.empty, Map.empty) = (s1, ha, ma)"
    by (metis prod.exhaust)
  obtain n1 hb mb where b: "deepcopy_groups_opt (ro_new_titles ?obj) ha ma = (n1, hb, mb)"
    by (metis prod.exhaust)
  from assms a b have r1: "r1 = length (report_objs hb)"
    and h1: "h1 = hb\<lparr>report_objs := report_objs hb @ [?obj\<lparr>ro_stats := s1, ro_new_titles := n1\<rparr>]\<rparr>"
    by (simp_all add: deepcopy_report_def Let_def)
  from deepcopy_groups_opt_frame[OF a preserved_refl closed_refl fresh_memo_empty] have
    fa: "preserved h0 ha" "closed h0 ha" "fresh_groups h0 ha (or_nil s1)" "fresh_memo h0 ha ma"
    "report_objs ha = report_objs h0" by simp_all
  from deepcopy_groups_opt_frame[OF b fa(1,2,4)] have
    fb: "preserved h0 hb" "closed h0 hb" "fresh_groups h0 hb (or_nil n1)"
    "length (group_objs ha) \<le> length (group_objs hb)" "report_objs hb = report_objs ha" by simp_all
  from fresh_groups_mono[OF fa(3) fb(4)] have fs: "fresh_groups h0 hb (or_nil s1)" .
  have p: "preserved h0 h1"
    using fb(1) fb(5) fa(5) by (simp add: h1 preserved_def)
  have c: "closed h0 h1"
    using fb(2) by (simp add: h1 closed_def)
  have ok: "report_ok h0 h1 r1"
    using fs fb(3) fb(5) fa(5) by (simp add: report_ok_def r1 h1 fresh_groups_def)
  from p c ok show ?thesis by simp
qed

lemma deepcopy_list_frame:
  assumes "deepcopy_list gs h = (gs', h')" "preserved h0 h" "closed h0 h"
  shows "preserved h0 h' \<and> closed h0 h' \<and> fresh_groups h0 h' (or_nil gs') \<and>
         length (group_objs h) \<le> length (group_objs h') \<and> report_objs h' = report_objs h"
proof (cases "or_nil gs = []")
  case True
  with assms show ?thesis by (simp add: deepcopy_list_def or_nil_def fresh_groups_def)
next
  case False
  with assms(1) obtain ys m' where d: "deepcopy_groups (or_nil gs) h (Map.empty, Map.empty) = (ys, h', m')"
    and g: "gs' = Some ys"
    by (auto simp: deepcopy_list_def split: prod.splits)
  from deepcopy_groups_frame[OF d assms(2,3) fresh_memo_empty] g show ?thesis by (simp add: or_nil_def)
qed

lemma rewrite_optional_st_frame:
  assumes "rewrite_optional_st section gs keep_ids ds h = (gs', h')"
    "preserved h0 h" "closed h0 h" "fresh_groups h0 h (or_nil gs)"
  shows "preserved h0 h' \<and> closed h0 h' \<and>
         length (group_objs h') = length (group_objs h) \<and> report_objs h' = report_objs h"
proof (cases gs)
  case None
  with assms show ?thesis by (simp add: rewrite_optional_st_def)
next
  case (Some xs)
  with assms(1) obtain ys where d: "rewrite_groups_loop_st section True 0 xs keep_ids ds [] h = (ys, h')"
    by (auto simp: rewrite_optional_st_def split: prod.splits)
  have e: "fresh_groups h0 h []" by (simp add: fresh_groups_def)
  from assms(4) Some have x: "fresh_groups h0 h xs" by (simp add: or_nil_def)
  from rewrite_groups_loop_st_frame[OF d assms(2,3) x e] show ?thesis by simp
qed

lemma report_update_frame:
  assumes "preserved h0 h" "length (report_objs h0) \<le> r"
  shows "preserved h0 (h\<lparr>report_objs := (report_objs h)[r := obj]\<rparr>)"
  using assms by (simp add: preserved_def)

lemma closed_report_update:
  "closed h0 h \<Longrightarrow> closed h0 (h\<lparr>report_objs := rs\<rparr>)"
  by (simp add: closed_def)

lemma apply_kept_ids_st_frame:
  assumes "apply_kept_ids_st h0 report rss_items rss_new_items keep_ids ptrs ds = (r', rss', rss_new', h')"
  shows "preserved h0 h'"
proof -
  obtain r h1 where s1: "deepcopy_report report h0 = (r, h1)" by (metis prod.exhaust)
  obtain rss h2 where s2: "deepcopy_list rss_items h1 = (rss, h2)" by (metis prod.exhaust)
  obtain rss_new h3 where s3: "deepcopy_list rss_new_items h2 = (rss_new, h3)" by (metis prod.exhaust)
  let ?stats = "or_nil (ro_stats (report_objs h3 ! r))"
  obtain new_stats h4 where s4:
    "rewrite_groups_loop_st (lit ''hot_stats'') True 0 ?stats keep_ids ds [] h3 = (new_stats, h4)"
    by (metis prod.exhaust)
  let ?h5 = "h4\<lparr>report_objs := (report_objs h4)[r := (report_objs h4 ! r)\<lparr>ro_stats := Some new_stats\<rparr>]\<rparr>"
  let ?news = "or_nil (ro_new_titles (report_objs ?h5 ! r))"
  obtain new_sources h6 where s6:
    "rewrite_groups_loop_st (lit ''hot_new'') False 0 ?news keep_ids ds [] ?h5 = (new_sources, h6)"
    by (metis prod.exhaust)
  let ?h7 = "h6\<lparr>report_objs := (report_objs h6)
                 [r := (report_objs h6 ! r)
                    \<lparr>ro_new_titles := Some new_sources,
                     ro_total_new_count :=
                       Some (sum_list (map (\<lambda>s. int (length (or_nil (go_titles (group_objs h6 ! s)))))
                               new_sources))\<rparr>]\<rparr>"
  obtain rss_out h8 where s8: "rewrite_optional_st (lit ''rss_stats'') rss keep_ids ds ?h7 = (rss_out, h8)"
    by (metis prod.exhaust)
  obtain rss_new_out h9 where s9:
    "rewrite_optional_st (lit ''rss_new'') rss_new keep_ids ds h8 = (rss_new_out, h9)"
    by (metis prod.exhaust)
  have res: "apply_kept_ids_st h0 report rss_items rss_new_items keep_ids ptrs ds =
      (r, rss_out, rss_new_out, h9)"
    unfolding apply_kept_ids_st_def by (simp only: s1 s2 s3 s4 s6 s8 s9 Let_def prod.case)
  with assms have h': "h' = h9" by simp
  from deepcopy_report_frame[OF s1] have
    f1: "preserved h0 h1" "closed h0 h1" "report_ok h0 h1 r" by simp_all
  from deepcopy_list_frame[OF s2 f1(1,2)] have
    f2: "preserved h0 h2" "closed h0 h2" "fresh_groups h0 h2 (or_nil rss)"
    "length (group_objs h1) \<le> length (group_objs h2)" "report_objs h2 = report_objs h1" by simp_all
  from deepcopy_list_frame[OF s3 f2(1,2)] have
    f3: "preserved h0 h3" "closed h0 h3" "fresh_groups h0 h3 (or_nil rss_new)"
    "length (group_objs h2) \<le> length (group_objs h3)" "report_objs h3 = report_objs h2" by simp_all
  from f1(3) have r: "length (report_objs h0) \<le> r" "r < length (report_objs h1)"
    and g1: "fresh_groups h0 h1 (or_nil (ro_stats (report_objs h1 ! r)))"
      "fresh_groups h0 h1 (or_nil (ro_new_titles (report_objs h1 ! r)))"
    by (simp_all add: report_ok_def)
  from f2(4) f3(4) have le13: "length (group_objs h1) \<le> length (group_objs h3)" by simp
  have st3: "fresh_groups h0 h3 ?stats"
    using fresh_groups_mono[OF g1(1) le13] f2(5) f3(5) by simp
  have nt3: "fresh_groups h0 h3 (or_nil (ro_new_titles (report_objs h3 ! r)))"
    using fresh_groups_mono[OF g1(2) le13] f2(5) f3(5) by simp
  have e3: "fresh_groups h0 h3 []" by (simp add: fresh_groups_def)
  from rewrite_groups_loop_st_frame[OF s4 f3(1,2) st3 e3] have
    f4: "preserved h0 h4" "closed h0 h4" "length (group_objs h4) = length (group_objs h3)"
    "report_objs h4 = report_objs h3" by simp_all
  have p5: "preserved h0 ?h5" by (rule report_update_frame[OF f4(1) r(1)])
  have c5: "closed h0 ?h5" by (rule closed_report_update[OF f4(2)])
  have rl: "r < length (report_objs h4)" using r(2) f2(5) f3(5) f4(4) by simp
  have n5: "fresh_groups h0 ?h5 ?news"
    using nt3 f4(3,4) rl by (simp add: fresh_groups_def)
  have e5: "fresh_groups h0 ?h5 []" by (simp add: fresh_groups_def)
  from rewrite_groups_loop_st_frame[OF s6 p5 c5 n5 e5] have
    f6: "preserved h0 h6" "closed h0 h6" "length (group_objs h6) = length (group_objs ?h5)" by simp_all
  have p7: "preserved h0 ?h7" by (rule report_update_frame[OF f6(1) r(1)])
  have c7: "closed h0 ?h7" by (rule closed_report_update[OF f6(2)])
  have len7: "length (group_objs h2) \<le> length (group_objs ?h7)"
    using f3(4) f4(3) f6(3) by simp
  have rss7: "fresh_groups h0 ?h7 (or_nil rss)"
    by (rule fresh_groups_mono[OF f2(3) len7])
  from rewrite_optional_st_frame[OF s8 p7 c7 rss7] have
    f8: "preserved h0 h8" "closed h0 h8" "length (group_objs h8) = length (group_objs ?h7)" by simp_all
  have len8: "length (group_objs h3) \<le> length (group_objs h8)"
    using f4(3) f6(3) f8(3) by simp
  have rn8: "fresh_groups h0 h8 (or_nil rss_new)"
    by (rule fresh_groups_mono[OF f3(3) len8])
  from rewrite_optional_st_frame[OF s9 f8(1,2) rn8] h' show ?thesis by simp
qed

lemma preserved_nth:
  assumes "preserved h0 h"
  shows "t < length (entry_objs h0) \<Longrightarrow> entry_objs h ! t = entry_objs h0 ! t"
    and "g < length (group_objs h0) \<Longrightarrow> group_objs h ! g = group_objs h0 ! g"
    and "r < length (report_objs h0) \<Longrightarrow> report_objs h ! r = report_objs h0 ! r"
  using assms unfolding preserved_def by (metis nth_take)+

lemma read_group_preserved:
  assumes "preserved h0 h" "wf_group h0 g"
  shows "read_group h g = read_group h0 g"
proof -
  from assms(2) have g: "g < length (group_objs h0)"
    and ts: "\<forall>t \<in> set (or_nil (go_titles (group_objs h0 ! g))). t < length (entry_objs h0)"
    by (simp_all add: wf_group_def)
  have o: "group_objs h ! g = group_objs h0 ! g" by (rule preserved_nth(2)[OF assms(1) g])
  have "map_option (map (\<lambda>t. entry_objs h ! t)) (go_titles (group_objs h0 ! g)) =
        map_option (map (\<lambda>t. entry_objs h0 ! t)) (go_titles (group_objs h0 ! g))"
    using ts preserved_nth(1)[OF assms(1)]
    by (cases "go_titles (group_objs h0 ! g)") (auto simp: or_nil_def)
  then show ?thesis by (simp add: read_group_def o Let_def)
qed

lemma read_groups_preserved:
  assumes "preserved h0 h" "wf_groups h0 gs"
  shows "read_groups h gs = read_groups h0 gs"
  using assms read_group_preserved[OF assms(1)]
  by (cases gs) (auto simp: read_groups_def wf_groups_def or_nil_def)

lemma read_report_preserved:
  assumes "preserved h0 h" "wf_report h0 r"
  shows "read_report h r = read_report h0 r"
proof -
  from assms(2) have r: "r < length (report_objs h0)"
    and a: "wf_groups h0 (ro_stats (report_objs h0 ! r))"
    and b: "wf_groups h0 (ro_new_titles (report_objs h0 ! r))"
    by (simp_all add: wf_report_def)
  have o: "report_objs h ! r = report_objs h0 ! r" by (rule preserved_nth(3)[OF assms(1) r])
  show ?thesis
    by (simp add: read_report_def o Let_def read_groups_preserved[OF assms(1) a]
        read_groups_preserved[OF assms(1) b])
qed

lemma filter_before_send_st_preserved:
  "preserved h (snd (filter_before_send_st lib svc self h report mode rss_items rss_new_items))"
  using apply_kept_ids_st_frame[of h report rss_items rss_new_items]
  by (auto simp: filter_before_send_st_def Let_def preserved_refl split: prod.splits sum.splits)

lemmas store_eval_simps =
  filter_before_send_st_def apply_kept_ids_st_def deepcopy_report_def deepcopy_groups_opt_def
  deepcopy_list_def set_brief_def rewrite_optional_st_def read_report_def read_groups_def
  read_group_def example_store_def

text \<open>On the example, the run on the store and the run on values agree: the collections
  read from the store after the run are the ones the pipeline computes from the
  collections read before it.\<close>

lemma example_store_agrees:
  "(let lib = example_lib [example_row ''hot_stats:0:0'' True 80 (lit ''X''),
                           example_row ''hot_stats:0:1'' False 30 []];
        ((r, rss, rss_new, st), h') =
          filter_before_send_st lib example_service example_gate example_store 0 (lit ''daily'')
            (Some [1]) None
    in (read_report h' r, read_groups h' rss, read_groups h' rss_new, st) =
       filter_before_send lib example_service example_gate (read_report example_store 0)
         (lit ''daily'') (read_groups example_store (Some [1])) (read_groups example_store None))"
  by (simp add: eval_simps store_eval_simps)

text \<open>
  Claim C9 (no mutation of caller data). Whatever the invocation does and however it
  ends (gate disabled, no key, no candidate, a batch that raises, or a full pass with
  rewriting), every entry, group and report object of the store the caller passed in
  is afterwards what it was: the store only grew by the copies, and all writes went to
  copies. So the caller's \<open>report_data\<close>, \<open>rss_items\<close> and \<open>rss_new_items\<close> read the same
  before and after the call.
\<close>

theorem caller_data_unchanged:
  "let h' = snd (filter_before_send_st lib svc self h report mode rss_items rss_new_items)
   in take (length (entry_objs h)) (entry_objs h') = entry_objs h \<and>
      take (length (group_objs h)) (group_objs h') = group_objs h \<and>
      take (length (report_objs h)) (report_objs h') = report_objs h \<and>
      (wf_report h report \<longrightarrow> read_report h' report = read_report h report) \<and>
      (wf_groups h rss_items \<longrightarrow> read_groups h' rss_items = read_groups h rss_items) \<and>
      (wf_groups h rss_new_items \<longrightarrow> read_groups h' rss_new_items = read_groups h rss_new_items)"
  using filter_before_send_st_preserved[of h lib svc self report mode rss_items rss_new_items]
    read_report_preserved read_groups_preserved
  by (simp add: Let_def preserved_def[of h])

text \<open>The witness: a pass that annotates A and drops B. The returned report is the
  object at address 1 and the returned \<open>rss_items\<close> is a list with the group at address
  4; the objects of the caller are the first three entries, two groups and one report
  of the store, as before.\<close>

theorem caller_data_unchanged_witness:
  "wf_report example_store 0 \<and> wf_groups example_store (Some [1]) \<and> wf_groups example_store None \<and>
   filter_before_send_st
     (example_lib [example_row ''hot_stats:0:0'' True 80 (lit ''X''),
                   example_row ''hot_stats:0:1'' False 30 []])
     example_service example_gate example_store 0 (lit ''daily'') (Some [1]) None =
   ((1, Some [4], None,
     \<lparr>total_items = 4, evaluated_items = 4, kept_items = 3, dropped_items = 1, error = []\<rparr>),
    \<lparr>entry_objs = entry_objs example_store @
        [(example_entry ''A'')\<lparr>brief := Some (lit ''X'')\<rparr>, example_entry ''B'',
         example_entry ''C'', example_entry ''C''],
      group_objs = group_objs example_store @
        [\<lparr>go_word = Some (lit ''AI''), go_titles = Some [3], go_count = Some 1, go_extra = []\<rparr>,
         \<lparr>go_word = Some (lit ''XR''), go_titles = Some [5], go_count = Some 1, go_extra = []\<rparr>,
         \<lparr>go_word = Some (lit ''XR''), go_titles = Some [6], go_count = Some 1, go_extra = []\<rparr>],
      report_objs = report_objs example_store @
        [\<lparr>ro_stats = Some [2, 3], ro_new_titles = Some [], ro_total_new_count = Some 0,
          ro_extra = []\<rparr>]\<rparr>)"
  using caller_data_unchanged[where h = example_store and report = 0 and rss_items = "Some [1]"
      and rss_new_items = None and self = example_gate and svc = example_service
      and mode = "lit ''daily''"
      and lib = "example_lib [example_row ''hot_stats:0:0'' True 80 (lit ''X''),
                              example_row ''hot_stats:0:1'' False 30 []]"]
  by (simp add: eval_simps store_eval_simps wf_report_def wf_groups_def wf_group_def)

end
